theory Spec2Isabelle
  imports Main "HOL-Library.Word"
begin

section \<open>DNS messages\<close>

text \<open>
  The cache stores values of the library type \<^verbatim>\<open>dns.Msg\<close>. The record below has the
  fields of a message that the code reads: the response code, the question section and
  the three sections of resource records. Of a resource record the code reads the header
  fields \<^verbatim>\<open>Rrtype\<close> and \<^verbatim>\<open>Ttl\<close>; the record data is kept as uninterpreted bytes.
\<close>

record Question =
  Name :: string
  Qtype :: "16 word"
  Qclass :: "16 word"

record RR =
  Rrtype :: "16 word"
  Ttl :: "32 word"
  Rdata :: "8 word list"

record Msg =
  Rcode :: int
  Question :: "Question list"
  Answer :: "RR list"
  Ns :: "RR list"
  Extra :: "RR list"

definition TypeOPT :: "16 word" where
  "TypeOPT = 41"

definition RcodeSuccess :: int where
  "RcodeSuccess = 0"

definition RcodeNameError :: int where
  "RcodeNameError = 3"

text \<open>
  An instant (\<^verbatim>\<open>time.Time\<close>) is the number of nanoseconds since the Unix epoch. A
  \<^verbatim>\<open>time.Duration\<close> is a signed 64-bit count of nanoseconds: \<open>int64\<close> is the
  two's complement wrap-around of an integer into that range.
\<close>

type_synonym Time = int

definition int64 :: "int \<Rightarrow> int" where
  "int64 x = (x + 2 ^ 63) mod 2 ^ 64 - 2 ^ 63"

definition Second :: int where
  "Second = 1000000000"

text \<open>\<^verbatim>\<open>min\<close> of dnsutil.go, on \<^verbatim>\<open>uint32\<close>.\<close>

definition min32 :: "32 word \<Rightarrow> 32 word \<Rightarrow> 32 word" where
  "min32 x y = (if x < y then x else y)"

text \<open>
  The three loops of \<^verbatim>\<open>MinTTL\<close>, in the order of the source: answer, authority,
  additional; an OPT record of the additional section is skipped.
\<close>

definition minTTL_answer :: "32 word \<Rightarrow> RR list \<Rightarrow> 32 word" where
  "minTTL_answer ttl rrs = foldl (\<lambda>t r. min32 (Ttl r) t) ttl rrs"

definition minTTL_extra :: "32 word \<Rightarrow> RR list \<Rightarrow> 32 word" where
  "minTTL_extra ttl rrs =
     foldl (\<lambda>t r. if Rrtype r = TypeOPT then t else min32 (Ttl r) t) ttl rrs"

definition MinTTL_seconds :: "Msg \<Rightarrow> 32 word" where
  "MinTTL_seconds m =
     minTTL_extra (minTTL_answer (minTTL_answer 2147483647 (Answer m)) (Ns m)) (Extra m)"

definition MinTTL :: "Msg \<Rightarrow> int" where
  "MinTTL m = int64 (uint (MinTTL_seconds m) * Second)"

definition canCache :: "Msg \<Rightarrow> bool" where
  "canCache m =
     (if MinTTL m = 0 then False
      else Rcode m = RcodeSuccess \<or> Rcode m = RcodeNameError)"

section \<open>The cache\<close>

record Value =
  Key :: "32 word"
  CreatedAt :: Time
  msg :: Msg

text \<open>
  The backend is an interface; the model observes the write calls an implementation
  receives, oldest first. \<^verbatim>\<open>Read\<close> changes nothing in a backend: what it returns is
  the argument \<open>stored\<close> of \<open>load\<close>.
\<close>

datatype backend_call = Set_call "32 word" Value | Evict_call "32 word" | Reset_call

text \<open>
  The field \<^verbatim>\<open>backend\<close> of a cache refers either to the \<^verbatim>\<open>defaultBackend\<close>, whose
  methods do nothing, or to the backend that was given to the constructor.
\<close>

datatype backend_ref = DefaultBackend | SuppliedBackend

text \<open>The closures sent to the queue: \<^verbatim>\<open>evictWithLock(key)\<close> and \<^verbatim>\<open>refresh(key, msg)\<close>.\<close>

datatype task = EvictTask "32 word" | RefreshTask "32 word" Msg

record Client =
  Addresses :: "string list"

text \<open>
  The state of a cache. \<open>values_map\<close> is the field \<^verbatim>\<open>values\<close>; \<open>queue\<close> lists the
  tasks sent to the channel that the worker has not received yet, oldest first (a send
  to the full channel waits for the worker, which the model leaves out); \<open>received\<close> is
  not a field of the source: it is the list of calls that the backend given to the
  constructor has received. The clock \<^verbatim>\<open>now\<close> is an argument of each operation that
  reads it.
\<close>

record Cache =
  client :: "Client option"
  backend :: backend_ref
  capacity :: int
  values_map :: "32 word \<rightharpoonup> Value"
  keys :: "32 word list"
  queue :: "task list"
  received :: "backend_call list"

datatype panic = IndexOutOfRange | NilDereference | NegativeLength

definition backend_Set :: "Cache \<Rightarrow> 32 word \<Rightarrow> Value \<Rightarrow> Cache" where
  "backend_Set c k v =
     (case backend c of
        DefaultBackend \<Rightarrow> c
      | SuppliedBackend \<Rightarrow> c\<lparr>received := received c @ [Set_call k v]\<rparr>)"

definition backend_Evict :: "Cache \<Rightarrow> 32 word \<Rightarrow> Cache" where
  "backend_Evict c k =
     (case backend c of
        DefaultBackend \<Rightarrow> c
      | SuppliedBackend \<Rightarrow> c\<lparr>received := received c @ [Evict_call k]\<rparr>)"

definition backend_Reset :: "Cache \<Rightarrow> Cache" where
  "backend_Reset c =
     (case backend c of
        DefaultBackend \<Rightarrow> c
      | SuppliedBackend \<Rightarrow> c\<lparr>received := received c @ [Reset_call]\<rparr>)"

definition removeKey :: "Cache \<Rightarrow> 32 word \<Rightarrow> Cache" where
  "removeKey c key = c\<lparr>keys := filter (\<lambda>k. k \<noteq> key) (keys c)\<rparr>"

definition appendKey :: "Cache \<Rightarrow> 32 word \<Rightarrow> Cache" where
  "appendKey c key = (let c1 = removeKey c key in c1\<lparr>keys := keys c1 @ [key]\<rparr>)"

text \<open>\<^verbatim>\<open>len(c.values)\<close>.\<close>

definition len_values :: "Cache \<Rightarrow> int" where
  "len_values c = int (card (dom (values_map c)))"

text \<open>
  \<^verbatim>\<open>setValue\<close>. Reading \<^verbatim>\<open>c.keys[0]\<close> of an empty slice panics; the result is then
  \<open>Inl IndexOutOfRange\<close>.
\<close>

definition setValue :: "Cache \<Rightarrow> Value \<Rightarrow> panic + (bool \<times> Cache)" where
  "setValue c v =
     (if capacity c = 0 \<or> \<not> canCache (msg v) then Inr (False, c)
      else if len_values c = capacity c \<and> capacity c > 0 then
        (case keys c of
           [] \<Rightarrow> Inl IndexOutOfRange
         | evict # rest \<Rightarrow>
             (let c1 = c\<lparr>values_map := (values_map c)(evict := None)\<rparr>;
                  c2 = c1\<lparr>keys := rest\<rparr>;
                  c3 = backend_Evict c2 evict;
                  c4 = c3\<lparr>values_map := (values_map c3)(Key v \<mapsto> v)\<rparr>;
                  c5 = appendKey c4 (Key v)
              in Inr (True, backend_Set c5 (Key v) v)))
      else
        (let c4 = c\<lparr>values_map := (values_map c)(Key v \<mapsto> v)\<rparr>;
             c5 = appendKey c4 (Key v)
         in Inr (True, backend_Set c5 (Key v) v)))"

text \<open>\<^verbatim>\<open>set\<close> reads the clock once; \<open>now\<close> is that reading.\<close>

definition set_msg :: "Cache \<Rightarrow> Time \<Rightarrow> 32 word \<Rightarrow> Msg \<Rightarrow> panic + (bool \<times> Cache)" where
  "set_msg c now key m = setValue c \<lparr>Key = key, CreatedAt = now, msg = m\<rparr>"

text \<open>The exported \<^verbatim>\<open>Set\<close> drops the boolean.\<close>

definition Set_msg :: "Cache \<Rightarrow> Time \<Rightarrow> 32 word \<Rightarrow> Msg \<Rightarrow> panic + Cache" where
  "Set_msg c now key m =
     (case set_msg c now key m of Inl p \<Rightarrow> Inl p | Inr (ok, c1) \<Rightarrow> Inr c1)"

text \<open>\<^verbatim>\<open>Reset\<close>.\<close>

definition Reset :: "Cache \<Rightarrow> Cache" where
  "Reset c = backend_Reset (c\<lparr>values_map := Map.empty, keys := []\<rparr>)"

definition prefetch :: "Cache \<Rightarrow> bool" where
  "prefetch c = (client c \<noteq> None)"

text \<open>\<^verbatim>\<open>evict\<close>; \<^verbatim>\<open>evictWithLock\<close> is the same function under the lock.\<close>

definition evict :: "Cache \<Rightarrow> 32 word \<Rightarrow> Cache" where
  "evict c key =
     (let c1 = c\<lparr>values_map := (values_map c)(key := None)\<rparr>;
          c2 = removeKey c1 key
      in backend_Evict c2 key)"

text \<open>\<^verbatim>\<open>isExpired\<close>: \<^verbatim>\<open>c.now().After(v.CreatedAt.Add(MinTTL(v.msg)))\<close>.\<close>

definition isExpired :: "Time \<Rightarrow> Value \<Rightarrow> bool" where
  "isExpired now v = (let expiresAt = CreatedAt v + MinTTL (msg v) in now > expiresAt)"

definition enqueue :: "Cache \<Rightarrow> task \<Rightarrow> Cache" where
  "enqueue c op = c\<lparr>queue := queue c @ [op]\<rparr>"

text \<open>
  \<^verbatim>\<open>getValue\<close> returns \<^verbatim>\<open>(nil, false)\<close>, here \<open>None\<close>, or \<^verbatim>\<open>(&v, true)\<close>, here
  \<open>Some v\<close>; the second component is the cache with the task it may have sent.
\<close>

definition getValue :: "Cache \<Rightarrow> Time \<Rightarrow> 32 word \<Rightarrow> Value option \<times> Cache" where
  "getValue c now key =
     (case values_map c key of
        None \<Rightarrow> (None, c)
      | Some v \<Rightarrow>
          if isExpired now v then
            (if \<not> prefetch c then (None, enqueue c (EvictTask key))
             else (Some v, enqueue c (RefreshTask key (msg v))))
          else (Some v, c))"

text \<open>\<^verbatim>\<open>Get\<close>: the message and the flag \<^verbatim>\<open>hit\<close>.\<close>

definition Get :: "Cache \<Rightarrow> Time \<Rightarrow> 32 word \<Rightarrow> (Msg option \<times> bool) \<times> Cache" where
  "Get c now key =
     (case getValue c now key of
        (None, c1) \<Rightarrow> ((None, False), c1)
      | (Some v, c1) \<Rightarrow> ((Some (msg v), True), c1))"

text \<open>
  \<^verbatim>\<open>refresh\<close>. \<open>outcome\<close> is what \<^verbatim>\<open>c.client.Exchange\<close> returns for the question
  of the old message: \<open>Inl\<close> an error, \<open>Inr\<close> the reply. \<open>now\<close> is the clock reading
  of the \<^verbatim>\<open>set\<close>.
\<close>

definition refresh :: "Cache \<Rightarrow> Time \<Rightarrow> 32 word \<Rightarrow> Msg \<Rightarrow> (string + Msg) \<Rightarrow> panic + Cache" where
  "refresh c now key old outcome =
     (case Question old of
        [] \<Rightarrow> Inl IndexOutOfRange
      | q # qs \<Rightarrow>
          (case client c of
             None \<Rightarrow> Inl NilDereference
           | Some cl \<Rightarrow>
               (case outcome of
                  Inl err \<Rightarrow> Inr c
                | Inr r \<Rightarrow>
                    (case set_msg c now key r of
                       Inl p \<Rightarrow> Inl p
                     | Inr (ok, c1) \<Rightarrow> if \<not> ok then Inr (evict c1 key) else Inr c1))))"

text \<open>
  \<^verbatim>\<open>List\<close>. A key of the log without an entry in \<^verbatim>\<open>values\<close> yields the zero
  \<^verbatim>\<open>Value\<close>, here \<open>None\<close>; a negative \<open>n\<close> panics in \<^verbatim>\<open>make\<close>.
\<close>

definition List :: "Cache \<Rightarrow> int \<Rightarrow> panic + Value option list" where
  "List c n =
     (if n < 0 then Inl NegativeLength
      else Inr (take (nat n) (map (values_map c) (rev (keys c)))))"

text \<open>The loop \<^verbatim>\<open>for _, v := range vs { c.setValue(v) }\<close> of \<^verbatim>\<open>load\<close>.\<close>

fun setValues :: "Cache \<Rightarrow> Value list \<Rightarrow> panic + Cache" where
  "setValues c [] = Inr c"
| "setValues c (v # vs) =
     (case setValue c v of Inl p \<Rightarrow> Inl p | Inr (ok, c1) \<Rightarrow> setValues c1 vs)"

text \<open>
  \<^verbatim>\<open>load\<close>. \<open>stored\<close> is what \<^verbatim>\<open>backend.Read()\<close> returns, oldest first. The calls
  \<^verbatim>\<open>backend.Reset()\<close> and \<^verbatim>\<open>backend.Evict\<close> go to the backend given as argument,
  whatever the field \<^verbatim>\<open>backend\<close> of the cache is. A negative \<open>n\<close> makes the slice
  expressions panic; the constructor excludes it.
\<close>

definition load :: "Cache \<Rightarrow> Value list \<Rightarrow> panic + Cache" where
  "load c stored =
     (if capacity c = 0 then Inr (c\<lparr>received := received c @ [Reset_call]\<rparr>)
      else
        (let n = (if capacity c < int (length stored) then capacity c else 0)
         in if n < 0 then Inl IndexOutOfRange
            else
              (case setValues c (drop (nat n) stored) of
                 Inl p \<Rightarrow> Inl p
               | Inr c1 \<Rightarrow>
                   (let c2 = (if capacity c < int (length stored)
                              then c1\<lparr>received := received c1
                                     @ map (\<lambda>v. Evict_call (Key v)) (take (nat n) stored)\<rparr>
                              else c1)
                    in Inr (c2\<lparr>backend := SuppliedBackend\<rparr>)))))"

definition newCache :: "int \<Rightarrow> Client option \<Rightarrow> Value list \<Rightarrow> panic + Cache" where
  "newCache cap cl stored =
     (let cap1 = (if cap < 0 then 0 else cap);
          c = \<lparr>client = cl, backend = DefaultBackend, capacity = cap1,
               values_map = Map.empty, keys = [], queue = [], received = []\<rparr>
      in load c stored)"

text \<open>The worker \<^verbatim>\<open>readQueue\<close> runs the oldest task of the queue.\<close>

definition runTask :: "Cache \<Rightarrow> Time \<Rightarrow> (string + Msg) \<Rightarrow> panic + Cache" where
  "runTask c now outcome =
     (case queue c of
        [] \<Rightarrow> Inr c
      | EvictTask key # rest \<Rightarrow> Inr (evict (c\<lparr>queue := rest\<rparr>) key)
      | RefreshTask key old # rest \<Rightarrow> refresh (c\<lparr>queue := rest\<rparr>) now key old outcome)"

text \<open>
  A sequence of calls \<^verbatim>\<open>c.Set(key, msg)\<close>; each call comes with the reading of the
  clock it takes.
\<close>

fun Sets :: "Cache \<Rightarrow> (Time \<times> 32 word \<times> Msg) list \<Rightarrow> panic + Cache" where
  "Sets c [] = Inr c"
| "Sets c ((now, key, m) # rest) =
     (case Set_msg c now key m of Inl p \<Rightarrow> Inl p | Inr c1 \<Rightarrow> Sets c1 rest)"

text \<open>
  The operations a client of the cache and the worker can perform, and a run of them in
  sequence: \<^verbatim>\<open>Set\<close>, \<^verbatim>\<open>Get\<close>, \<^verbatim>\<open>Reset\<close>, and the worker taking one task.
\<close>

datatype operation =
    OpSet Time "32 word" Msg
  | OpGet Time "32 word"
  | OpReset
  | OpTask Time "string + Msg"

fun apply_op :: "Cache \<Rightarrow> operation \<Rightarrow> panic + Cache" where
  "apply_op c (OpSet now key m) = Set_msg c now key m"
| "apply_op c (OpGet now key) = Inr (snd (Get c now key))"
| "apply_op c OpReset = Inr (Reset c)"
| "apply_op c (OpTask now outcome) = runTask c now outcome"

fun run :: "Cache \<Rightarrow> operation list \<Rightarrow> panic + Cache" where
  "run c [] = Inr c"
| "run c (x # xs) = (case apply_op c x of Inl p \<Rightarrow> Inl p | Inr c1 \<Rightarrow> run c1 xs)"

section \<open>The persisted line\<close>

text \<open>
  \<^verbatim>\<open>Pack\<close> and \<^verbatim>\<open>Unpack\<close> use the Go library (\<^verbatim>\<open>strconv\<close>, \<^verbatim>\<open>strings\<close>,
  \<^verbatim>\<open>encoding/hex\<close>) and the wire codec of \<^verbatim>\<open>dns.Msg\<close>. The library functions are
  modelled after their documentation, on strings of bytes. The wire codec is outside the
  repository: it is a parameter, a pair of functions that may fail.
\<close>

datatype error =
    ErrFields
  | ErrSyntax
  | ErrRange
  | ErrLength
  | InvalidByteError char
  | ErrCodec string

record Codec =
  msg_Pack :: "Msg \<Rightarrow> error + 8 word list"
  msg_Unpack :: "8 word list \<Rightarrow> error + Msg"

subsection \<open>Decimal numbers\<close>

definition digit_char :: "nat \<Rightarrow> char" where
  "digit_char d = char_of (48 + d)"

definition digit_val :: "char \<Rightarrow> nat option" where
  "digit_val c =
     (let n = of_char c :: nat in if 48 \<le> n \<and> n \<le> 57 then Some (n - 48) else None)"

text \<open>\<^verbatim>\<open>strconv.FormatUint(n, 10)\<close> and \<^verbatim>\<open>strconv.FormatInt(i, 10)\<close>.\<close>

fun FormatUint :: "nat \<Rightarrow> string" where
  "FormatUint n =
     (if n < 10 then [digit_char n] else FormatUint (n div 10) @ [digit_char (n mod 10)])"

declare FormatUint.simps [simp del]

definition FormatInt :: "int \<Rightarrow> string" where
  "FormatInt i = (if i < 0 then CHR ''-'' # FormatUint (nat (- i)) else FormatUint (nat i))"

text \<open>
  The loop of \<^verbatim>\<open>strconv.ParseUint\<close> in base 10: a byte that is no digit is a syntax
  error; a value above \<open>maxVal\<close> is a range error, found at the digit that exceeds it.
\<close>

fun parse_digits :: "nat \<Rightarrow> nat \<Rightarrow> string \<Rightarrow> error + nat" where
  "parse_digits maxVal n [] = Inr n"
| "parse_digits maxVal n (c # cs) =
     (case digit_val c of
        None \<Rightarrow> Inl ErrSyntax
      | Some d \<Rightarrow>
          if maxVal < n * 10 + d then Inl ErrRange
          else parse_digits maxVal (n * 10 + d) cs)"

definition ParseUint :: "string \<Rightarrow> nat \<Rightarrow> error + nat" where
  "ParseUint s bitSize =
     (if s = [] then Inl ErrSyntax else parse_digits (2 ^ bitSize - 1) 0 s)"

text \<open>
  \<^verbatim>\<open>strconv.ParseInt(s, 10, bitSize)\<close>: an optional sign, then the magnitude read by
  \<^verbatim>\<open>ParseUint\<close>, then the check of the signed range.
\<close>

definition ParseInt :: "string \<Rightarrow> nat \<Rightarrow> error + int" where
  "ParseInt s bitSize =
     (if s = [] then Inl ErrSyntax
      else
        (let neg = (hd s = CHR ''-'');
             s1 = (if hd s = CHR ''+'' \<or> hd s = CHR ''-'' then tl s else s)
         in case ParseUint s1 bitSize of
              Inl e \<Rightarrow> Inl e
            | Inr un \<Rightarrow>
                if \<not> neg \<and> un \<ge> 2 ^ (bitSize - 1) then Inl ErrRange
                else if neg \<and> un > 2 ^ (bitSize - 1) then Inl ErrRange
                else Inr (if neg then - int un else int un)))"

subsection \<open>Hexadecimal\<close>

definition hex_char :: "nat \<Rightarrow> char" where
  "hex_char n = (if n < 10 then char_of (48 + n) else char_of (87 + n))"

definition fromHexChar :: "char \<Rightarrow> nat option" where
  "fromHexChar c =
     (let n = of_char c :: nat in
      if 48 \<le> n \<and> n \<le> 57 then Some (n - 48)
      else if 97 \<le> n \<and> n \<le> 102 then Some (n - 87)
      else if 65 \<le> n \<and> n \<le> 70 then Some (n - 55)
      else None)"

text \<open>\<^verbatim>\<open>hex.EncodeToString\<close>: two lower-case digits for each byte.\<close>

fun EncodeToString :: "8 word list \<Rightarrow> string" where
  "EncodeToString [] = []"
| "EncodeToString (b # bs) =
     hex_char (unat b div 16) # hex_char (unat b mod 16) # EncodeToString bs"

text \<open>
  \<^verbatim>\<open>hex.DecodeString\<close>: pairs of digits from the left; a byte that is no digit is
  reported where it is met, an odd length after the last pair.
\<close>

fun DecodeString :: "string \<Rightarrow> error + 8 word list" where
  "DecodeString [] = Inr []"
| "DecodeString [p] =
     (case fromHexChar p of None \<Rightarrow> Inl (InvalidByteError p) | Some a \<Rightarrow> Inl ErrLength)"
| "DecodeString (p # q # rest) =
     (case fromHexChar p of
        None \<Rightarrow> Inl (InvalidByteError p)
      | Some a \<Rightarrow>
          (case fromHexChar q of
             None \<Rightarrow> Inl (InvalidByteError q)
           | Some b \<Rightarrow>
               (case DecodeString rest of
                  Inl e \<Rightarrow> Inl e
                | Inr bs \<Rightarrow> Inr (word_of_nat (a * 16 + b) # bs))))"

subsection \<open>Fields\<close>

text \<open>
  \<^verbatim>\<open>strings.Fields\<close> splits a string around runs of white space, as
  \<^verbatim>\<open>unicode.IsSpace\<close> defines it. \<open>space_prefix s\<close> is the number of bytes of the
  white-space character at the head of \<open>s\<close>, in UTF-8, and 0 when there is none: the six
  ASCII characters, U+0085 and U+00A0 (two bytes), U+1680, U+2000 to U+200A, U+2028,
  U+2029, U+202F, U+205F and U+3000 (three bytes). No such encoding starts inside the
  encoding of another character, so the scan may advance byte by byte over the rest.
\<close>

definition space_prefix :: "string \<Rightarrow> nat" where
  "space_prefix s =
     (case map of_char s of
        [] \<Rightarrow> 0
      | b0 # t \<Rightarrow>
          if (9 :: nat) \<le> b0 \<and> b0 \<le> 13 \<or> b0 = 32 then 1
          else if b0 = 194 then
            (case t of b1 # u \<Rightarrow> if b1 = 133 \<or> b1 = 160 then 2 else 0 | [] \<Rightarrow> 0)
          else if b0 = 225 then
            (case t of b1 # b2 # u \<Rightarrow> if b1 = 154 \<and> b2 = 128 then 3 else 0 | _ \<Rightarrow> 0)
          else if b0 = 226 then
            (case t of
               b1 # b2 # u \<Rightarrow>
                 if b1 = 128 \<and> (128 \<le> b2 \<and> b2 \<le> 138 \<or> b2 = 168 \<or> b2 = 169 \<or> b2 = 175) then 3
                 else if b1 = 129 \<and> b2 = 159 then 3
                 else 0
             | _ \<Rightarrow> 0)
          else if b0 = 227 then
            (case t of b1 # b2 # u \<Rightarrow> if b1 = 128 \<and> b2 = 128 then 3 else 0 | _ \<Rightarrow> 0)
          else 0)"

text \<open>
  The scan: \<open>cur\<close> is the field being read, \<open>skip\<close> the number of bytes of a
  white-space character still to pass.
\<close>

fun fields_scan :: "string \<Rightarrow> nat \<Rightarrow> string \<Rightarrow> string list" where
  "fields_scan cur skip [] = (if cur = [] then [] else [cur])"
| "fields_scan cur (Suc k) (c # cs) = fields_scan cur k cs"
| "fields_scan cur 0 (c # cs) =
     (let n = space_prefix (c # cs) in
      if n > 0 then (if cur = [] then [] else [cur]) @ fields_scan [] (n - 1) cs
      else fields_scan (cur @ [c]) 0 cs)"

definition Fields :: "string \<Rightarrow> string list" where
  "Fields s = fields_scan [] 0 s"

subsection \<open>Pack and Unpack\<close>

text \<open>\<^verbatim>\<open>Time.Unix()\<close>, the seconds since the epoch as \<^verbatim>\<open>int64\<close>, and \<^verbatim>\<open>time.Unix(secs, 0)\<close>.\<close>

definition Unix :: "Time \<Rightarrow> int" where
  "Unix t = int64 (t div Second)"

definition time_Unix :: "int \<Rightarrow> Time" where
  "time_Unix secs = secs * Second"

definition Pack :: "Codec \<Rightarrow> Value \<Rightarrow> error + string" where
  "Pack codec v =
     (case msg_Pack codec (msg v) of
        Inl err \<Rightarrow> Inl err
      | Inr data \<Rightarrow>
          Inr (FormatUint (unat (Key v)) @ '' '' @ FormatInt (Unix (CreatedAt v)) @ '' ''
               @ EncodeToString data))"

definition Unpack :: "Codec \<Rightarrow> string \<Rightarrow> error + Value" where
  "Unpack codec value =
     (let fields = Fields value in
      if length fields < 3 then Inl ErrFields
      else
        (case ParseUint (fields ! 0) 32 of
           Inl err \<Rightarrow> Inl err
         | Inr key \<Rightarrow>
             (case ParseInt (fields ! 1) 64 of
                Inl err \<Rightarrow> Inl err
              | Inr secs \<Rightarrow>
                  (case DecodeString (fields ! 2) of
                     Inl err \<Rightarrow> Inl err
                   | Inr data \<Rightarrow>
                       (case msg_Unpack codec data of
                          Inl err \<Rightarrow> Inl err
                        | Inr m \<Rightarrow>
                            Inr \<lparr>Key = word_of_nat key, CreatedAt = time_Unix secs, msg = m\<rparr>)))))"

text \<open>
  The accessors \<^verbatim>\<open>Question\<close> and \<^verbatim>\<open>Qtype\<close> of a value read
  \<^verbatim>\<open>v.msg.Question[0]\<close>, which panics when the question section is empty.
\<close>

definition Value_Question :: "Value \<Rightarrow> panic + string" where
  "Value_Question v =
     (case Question (msg v) of [] \<Rightarrow> Inl IndexOutOfRange | q # qs \<Rightarrow> Inr (Name q))"

definition Value_Qtype :: "Value \<Rightarrow> panic + 16 word" where
  "Value_Qtype v =
     (case Question (msg v) of [] \<Rightarrow> Inl IndexOutOfRange | q # qs \<Rightarrow> Inr (Qtype q))"

text \<open>Bytes that are no part of a white-space character: ASCII and not white space.\<close>

definition plain :: "char \<Rightarrow> bool" where
  "plain c \<longleftrightarrow> (of_char c :: nat) < 128 \<and> \<not> ((9 :: nat) \<le> of_char c \<and> (of_char c :: nat) \<le> 13) \<and> (of_char c :: nat) \<noteq> 32"

subsection \<open>Auxiliary notions for the proofs\<close>

text \<open>
  The insertion log and the map agree: the log lists the keys of the map, each once.
\<close>

definition log_inv :: "Cache \<Rightarrow> bool" where
  "log_inv c \<longleftrightarrow> dom (values_map c) = set (keys c) \<and> distinct (keys c)"

text \<open>The last \<open>n\<close> elements of a list.\<close>

definition newest :: "nat \<Rightarrow> 'a list \<Rightarrow> 'a list" where
  "newest n xs = drop (length xs - n) xs"

text \<open>A list of values as a map from their keys.\<close>

definition by_key :: "Value list \<Rightarrow> 32 word \<rightharpoonup> Value" where
  "by_key vs = map_of (map (\<lambda>v. (Key v, v)) vs)"

text \<open>The value that \<^verbatim>\<open>set\<close> builds from the clock reading, the key and the message.\<close>

definition mkValue :: "Time \<times> 32 word \<times> Msg \<Rightarrow> Value" where
  "mkValue x = (case x of (now, key, m) \<Rightarrow> \<lparr>Key = key, CreatedAt = now, msg = m\<rparr>)"

subsection \<open>Example data\<close>

definition reply :: "int \<Rightarrow> 32 word \<Rightarrow> Msg" where
  "reply rc ttl =
     \<lparr>Rcode = rc,
      Question = [\<lparr>Name = ''example.com.'', Qtype = 1, Qclass = 1\<rparr>],
      Answer = [\<lparr>Rrtype = 1, Ttl = ttl, Rdata = [1, 2, 3, 4]\<rparr>],
      Ns = [], Extra = []\<rparr>"

definition entry :: "32 word \<Rightarrow> Value" where
  "entry k = \<lparr>Key = k, CreatedAt = 0, msg = reply 0 300\<rparr>"

definition empty_cache :: "int \<Rightarrow> Client option \<Rightarrow> backend_ref \<Rightarrow> Cache" where
  "empty_cache cap cl b =
     \<lparr>client = cl, backend = b, capacity = cap,
      values_map = Map.empty, keys = [], queue = [], received = []\<rparr>"

text \<open>Three calls of \<^verbatim>\<open>Set\<close> at time 0, with the keys 1, 2 and 3.\<close>

definition three_sets :: "(Time \<times> 32 word \<times> Msg) list" where
  "three_sets = [(0, 1, reply 0 300), (0, 2, reply 0 300), (0, 3, reply 0 300)]"

text \<open>A cache of capacity 8 that holds one entry, under the key 7.\<close>

definition one_entry :: "Client option \<Rightarrow> Cache" where
  "one_entry cl =
     \<lparr>client = cl, backend = SuppliedBackend, capacity = 8,
      values_map = [7 \<mapsto> entry 7], keys = [7], queue = [], received = []\<rparr>"

text \<open>Five persisted values, oldest first.\<close>

definition five_stored :: "Value list" where
  "five_stored = [entry 1, entry 2, entry 3, entry 4, entry 5]"

text \<open>
  A codec for messages without records, for the examples: the twelve-byte header of the
  wire format with the response bit set, the rcode in the low half of the fourth byte
  and the four counts zero.
\<close>

definition header_only :: "int \<Rightarrow> Msg" where
  "header_only rc = \<lparr>Rcode = rc, Question = [], Answer = [], Ns = [], Extra = []\<rparr>"

definition header_codec :: Codec where
  "header_codec =
     \<lparr>msg_Pack = (\<lambda>m.
        if Question m = [] \<and> Answer m = [] \<and> Ns m = [] \<and> Extra m = []
           \<and> 0 \<le> Rcode m \<and> Rcode m < 16
        then Inr ([0, 0, 128, word_of_int (Rcode m)] @ replicate 8 0)
        else Inl (ErrCodec ''records are not supported'')),
      msg_Unpack = (\<lambda>data.
        if length data = 12 \<and> drop 4 data = replicate 8 0
        then Inr (header_only (uint (data ! 3) mod 16))
        else Inl (ErrCodec ''records are not supported''))\<rparr>"

text \<open>A value without question, created 1.5 seconds after the epoch.\<close>

definition bare_value :: Value where
  "bare_value = \<lparr>Key = 7, CreatedAt = 1500000000, msg = header_only 0\<rparr>"

section \<open>Hijacking\<close>

text \<open>
  \<^verbatim>\<open>net.IP\<close> is a slice of bytes and \<^verbatim>\<open>net.IPAddr\<close> a structure with the fields
  \<^verbatim>\<open>IP\<close> and \<^verbatim>\<open>Zone\<close>. \<^verbatim>\<open>IP.To4\<close> returns the address itself when it has four
  bytes, the last four bytes of a 16-byte address with the prefix of an IPv4-mapped
  address, and \<^verbatim>\<open>nil\<close>, here \<open>None\<close>, otherwise.
\<close>

type_synonym IP = "8 word list"

record IPAddr =
  IP :: IP
  Zone :: string

definition To4 :: "IP \<Rightarrow> IP option" where
  "To4 ip =
     (if length ip = 4 then Some ip
      else if length ip = 16 \<and> take 10 ip = replicate 10 0 \<and> ip ! 10 = 255 \<and> ip ! 11 = 255
      then Some (drop 12 ip)
      else None)"

definition IPv4zero :: IP where
  "IPv4zero = replicate 10 0 @ [255, 255, 0, 0, 0, 0]"

definition IPv6zero :: IP where
  "IPv6zero = replicate 16 0"

definition TypeA :: "16 word" where
  "TypeA = 1"

definition TypeAAAA :: "16 word" where
  "TypeAAAA = 28"

definition HijackZero :: int where
  "HijackZero = 0"

definition HijackEmpty :: int where
  "HijackEmpty = 1"

definition HijackHosts :: int where
  "HijackHosts = 2"

record Request =
  Type :: "16 word"
  Name :: string

text \<open>
  Modelled from the spec: the type \<^verbatim>\<open>dns.Reply\<close> and its constructors \<^verbatim>\<open>dns.ReplyA\<close>
  and \<^verbatim>\<open>dns.ReplyAAAA\<close> belong to the package \<^verbatim>\<open>dns\<close> of the repository, which is
  not among the sources. A reply is its answer section; \<^verbatim>\<open>ReplyA\<close> answers with one A
  record of the name for each address it is given, \<^verbatim>\<open>ReplyAAAA\<close> with one AAAA record,
  and the empty reply \<^verbatim>\<open>&dns.Reply{}\<close> has no answer.
\<close>

datatype answer = A_record string IP | AAAA_record string IP

record Reply =
  answers :: "answer list"

definition ReplyA :: "string \<Rightarrow> IP list \<Rightarrow> Reply" where
  "ReplyA name ipAddr = \<lparr>answers = map (A_record name) ipAddr\<rparr>"

definition ReplyAAAA :: "string \<Rightarrow> IP list \<Rightarrow> Reply" where
  "ReplyAAAA name ipAddr = \<lparr>answers = map (AAAA_record name) ipAddr\<rparr>"

text \<open>
  The part of a \<^verbatim>\<open>Server\<close> that \<^verbatim>\<open>hijack\<close> reads: the hijack mode of the
  configuration and the hosts. Modelled from the spec: the method \<^verbatim>\<open>Get\<close> of
  \<^verbatim>\<open>hosts.Hosts\<close> is not among the sources; the hosts are given by this lookup, from a
  name to its addresses.
\<close>

record Server =
  hijackMode :: int
  hosts_Get :: "string \<Rightarrow> IPAddr list option"

definition nonFqdn :: "string \<Rightarrow> string" where
  "nonFqdn s = (if length s > 0 \<and> drop (length s - 1) s = ''.'' then take (length s - 1) s else s)"

text \<open>
  The loop of the case \<^verbatim>\<open>HijackHosts\<close>: the pair of \<^verbatim>\<open>ipv4Addr\<close> and \<^verbatim>\<open>ipv6Addr\<close>.
\<close>

fun splitAddrs :: "IP list \<times> IP list \<Rightarrow> IPAddr list \<Rightarrow> IP list \<times> IP list" where
  "splitAddrs (ipv4Addr, ipv6Addr) [] = (ipv4Addr, ipv6Addr)"
| "splitAddrs (ipv4Addr, ipv6Addr) (ipAddr # rest) =
     (if To4 (IP ipAddr) = None
      then splitAddrs (ipv4Addr, ipv6Addr @ [IP ipAddr]) rest
      else splitAddrs (ipv4Addr @ [IP ipAddr], ipv6Addr) rest)"

text \<open>\<^verbatim>\<open>hijack\<close>; the result \<^verbatim>\<open>nil\<close> is \<open>None\<close>.\<close>

definition hijack :: "Server \<Rightarrow> Request \<Rightarrow> Reply option" where
  "hijack s r =
     (if Type r \<noteq> TypeA \<and> Type r \<noteq> TypeAAAA then None
      else case hosts_Get s (nonFqdn (Name r)) of
        None \<Rightarrow> None
      | Some ipAddrs \<Rightarrow>
          if hijackMode s = HijackZero then
            (if Type r = TypeA then Some (ReplyA (Name r) [IPv4zero])
             else if Type r = TypeAAAA then Some (ReplyAAAA (Name r) [IPv6zero])
             else None)
          else if hijackMode s = HijackEmpty then Some \<lparr>answers = []\<rparr>
          else if hijackMode s = HijackHosts then
            (case splitAddrs ([], []) ipAddrs of
               (ipv4Addr, ipv6Addr) \<Rightarrow>
                 if Type r = TypeA then Some (ReplyA (Name r) ipv4Addr)
                 else if Type r = TypeAAAA then Some (ReplyAAAA (Name r) ipv6Addr)
                 else None)
          else None)"

text \<open>The hosts of the scenario: \<^verbatim>\<open>ads.example\<close> with the address 1.2.3.4.\<close>

definition ads_server :: Server where
  "ads_server =
     \<lparr>hijackMode = 2,
      hosts_Get = (\<lambda>name. if name = ''ads.example''
                          then Some [\<lparr>IP = [1, 2, 3, 4], Zone = []\<rparr>] else None)\<rparr>"

section \<open>Properties\<close>

lemma MinTTL_seconds_answer_le: "ttl \<le> 2147483647 \<Longrightarrow> minTTL_answer ttl rrs \<le> 2147483647"
  by (induction rrs arbitrary: ttl) (auto simp: minTTL_answer_def min32_def)

lemma MinTTL_seconds_extra_le: "ttl \<le> 2147483647 \<Longrightarrow> minTTL_extra ttl rrs \<le> 2147483647"
  by (induction rrs arbitrary: ttl) (auto simp: minTTL_extra_def min32_def)

lemma MinTTL_seconds_le: "MinTTL_seconds m \<le> 2147483647"
  unfolding MinTTL_seconds_def
  by (intro MinTTL_seconds_extra_le MinTTL_seconds_answer_le) simp

text \<open>The multiplication by \<^verbatim>\<open>time.Second\<close> does not leave the range of \<^verbatim>\<open>int64\<close>.\<close>

lemma MinTTL_exact: "MinTTL m = uint (MinTTL_seconds m) * 1000000000"
proof -
  have "uint (MinTTL_seconds m) \<le> uint (2147483647 :: 32 word)"
    using MinTTL_seconds_le [of m] by (simp only: word_le_def)
  then have le: "uint (MinTTL_seconds m) \<le> 2147483647" by simp
  have ge: "0 \<le> uint (MinTTL_seconds m)" by simp
  define x where "x = uint (MinTTL_seconds m) * 1000000000"
  have "0 \<le> x" "x < 2 ^ 63" using le ge by (simp_all add: x_def)
  then have "int64 x = x"
    by (simp add: int64_def)
  then show ?thesis by (simp add: MinTTL_def Second_def x_def)
qed

lemma MinTTL_zero_iff: "MinTTL m = 0 \<longleftrightarrow> MinTTL_seconds m = 0"
  by (simp add: MinTTL_exact uint_0_iff)

lemma canCache_iff:
  "canCache m \<longleftrightarrow> MinTTL_seconds m \<noteq> 0 \<and> (Rcode m = 0 \<or> Rcode m = 3)"
  by (simp add: canCache_def MinTTL_zero_iff RcodeSuccess_def RcodeNameError_def)

text \<open>
  C5. A message is not cacheable when its minimum TTL over the answer, the authority and
  the non-OPT additional records is 0, or when its rcode is neither NOERROR (0) nor
  NXDOMAIN (3). For such a message \<^verbatim>\<open>set\<close> returns false, \<^verbatim>\<open>Set\<close> returns, and the
  cache state is the one before the call: values, keys, and the calls the backend has
  received.
\<close>

theorem set_not_cacheable_unchanged:
  assumes "MinTTL_seconds m = 0 \<or> (Rcode m \<noteq> 0 \<and> Rcode m \<noteq> 3)"
  shows "\<not> canCache m \<and> set_msg c now k m = Inr (False, c) \<and> Set_msg c now k m = Inr c"
  using assms by (auto simp: canCache_iff set_msg_def Set_msg_def setValue_def)

lemma MinTTL_seconds_reply [simp]: "MinTTL_seconds (reply rc ttl) = min32 ttl 2147483647"
  by (simp add: MinTTL_seconds_def minTTL_answer_def minTTL_extra_def reply_def)

lemma Rcode_reply [simp]: "Rcode (reply rc ttl) = rc"
  by (simp add: reply_def)

theorem set_not_cacheable_unchanged_witness:
  "MinTTL_seconds (reply 0 0) = 0
   \<and> set_msg (one_entry None) 5 9 (reply 0 0) = Inr (False, one_entry None)
   \<and> Set_msg (one_entry None) 5 9 (reply 0 0) = Inr (one_entry None)
   \<and> Rcode (reply 2 300) \<noteq> 0 \<and> Rcode (reply 2 300) \<noteq> 3
   \<and> set_msg (one_entry None) 5 9 (reply 2 300) = Inr (False, one_entry None)
   \<and> Set_msg (one_entry None) 5 9 (reply 2 300) = Inr (one_entry None)"
proof -
  have z: "MinTTL_seconds (reply 0 0) = 0"
    by (simp add: min32_def)
  have r: "Rcode (reply 2 300) \<noteq> 0 \<and> Rcode (reply 2 300) \<noteq> 3"
    by simp
  show ?thesis
    using set_not_cacheable_unchanged [of "reply 0 0" "one_entry None" 5 9]
      set_not_cacheable_unchanged [of "reply 2 300" "one_entry None" 5 9] z r
    by simp
qed

lemma canCache_reply_ok: "canCache (reply 0 300)"
  by (simp add: canCache_iff min32_def)

lemma canCache_reply_servfail: "\<not> canCache (reply 2 300)"
  by (simp add: canCache_iff)

lemma isExpired_entry:
  "isExpired now \<lparr>Key = k, CreatedAt = 0, msg = reply 0 300\<rparr> \<longleftrightarrow> now > 300000000000"
  by (simp add: isExpired_def MinTTL_exact min32_def)

subsection \<open>FIFO eviction\<close>

lemma len_values_log_inv: "log_inv c \<Longrightarrow> len_values c = int (length (keys c))"
  by (simp add: log_inv_def len_values_def distinct_card)

lemma filter_absent: "x \<notin> set xs \<Longrightarrow> filter (\<lambda>k. k \<noteq> x) xs = xs"
  by (induction xs) auto

lemma setValue_fresh_room:
  assumes "log_inv c" "0 < capacity c" "canCache (msg v)" "Key v \<notin> set (keys c)"
    "int (length (keys c)) \<noteq> capacity c"
  shows "setValue c v =
     Inr (True, backend_Set (c\<lparr>values_map := (values_map c)(Key v \<mapsto> v), keys := keys c @ [Key v]\<rparr>) (Key v) v)"
  using assms
  by (simp add: setValue_def len_values_log_inv appendKey_def removeKey_def Let_def filter_absent)

lemma setValue_fresh_full:
  assumes "log_inv c" "0 < capacity c" "canCache (msg v)" "Key v \<notin> set (keys c)"
    "int (length (keys c)) = capacity c"
  shows "setValue c v =
     Inr (True, backend_Set (backend_Evict (c\<lparr>values_map := (values_map c)(hd (keys c) := None, Key v \<mapsto> v),
            keys := tl (keys c) @ [Key v]\<rparr>) (hd (keys c))) (Key v) v)"
proof -
  from assms obtain e rest where k: "keys c = e # rest" by (cases "keys c") auto
  have "Key v \<noteq> e" "Key v \<notin> set rest" using assms(4) k by auto
  then have f: "filter (\<lambda>k. k \<noteq> Key v) rest = rest" by (simp add: filter_absent) 
  show ?thesis using assms
    apply (simp add: setValue_def len_values_log_inv appendKey_def removeKey_def Let_def k
      backend_Evict_def backend_Set_def f split: backend_ref.splits)
    done
qed

lemma setValues_snoc:
  "setValues c (vs @ [v]) =
     (case setValues c vs of Inl p \<Rightarrow> Inl p
      | Inr c1 \<Rightarrow> (case setValue c1 v of Inl p \<Rightarrow> Inl p | Inr (ok, c2) \<Rightarrow> Inr c2))"
  by (induction vs arbitrary: c) (auto split: sum.splits)

lemma backend_Set_fields [simp]:
  "values_map (backend_Set c k v) = values_map c"
  "keys (backend_Set c k v) = keys c"
  "capacity (backend_Set c k v) = capacity c"
  "client (backend_Set c k v) = client c"
  "backend (backend_Set c k v) = backend c"
  "queue (backend_Set c k v) = queue c"
  by (simp_all add: backend_Set_def split: backend_ref.splits)

lemma backend_Evict_fields [simp]:
  "values_map (backend_Evict c k) = values_map c"
  "keys (backend_Evict c k) = keys c"
  "capacity (backend_Evict c k) = capacity c"
  "client (backend_Evict c k) = client c"
  "backend (backend_Evict c k) = backend c"
  "queue (backend_Evict c k) = queue c"
  by (simp_all add: backend_Evict_def split: backend_ref.splits)

lemma by_key_Nil: "by_key [] = Map.empty"
  by (simp add: by_key_def)

lemma by_key_absent: "k \<notin> Key ` set vs \<Longrightarrow> by_key vs k = None"
  by (simp add: by_key_def map_of_eq_None_iff image_image)

lemma by_key_snoc:
  "Key v \<notin> Key ` set vs \<Longrightarrow> by_key (vs @ [v]) = (by_key vs)(Key v \<mapsto> v)"
  by (induction vs) (auto simp: fun_eq_iff by_key_def)

lemma by_key_drop_head:
  "Key h \<notin> Key ` set t \<Longrightarrow> (by_key (h # t))(Key h := None) = by_key t"
  using by_key_absent [of "Key h" t] by (auto simp: fun_eq_iff by_key_def)

lemma dom_by_key: "dom (by_key vs) = Key ` set vs"
  by (simp add: by_key_def dom_map_of_conv_image_fst image_image)

lemma setValues_distinct:
  assumes "0 < capacity c" "values_map c = Map.empty" "keys c = []"
    "distinct (map Key vs)" "\<forall>v \<in> set vs. canCache (msg v)"
  shows "\<exists>c'. setValues c vs = Inr c'
           \<and> keys c' = map Key (newest (nat (capacity c)) vs)
           \<and> values_map c' = by_key (newest (nat (capacity c)) vs)
           \<and> capacity c' = capacity c \<and> client c' = client c \<and> backend c' = backend c
           \<and> queue c' = queue c"
  using assms(4,5)
proof (induction vs rule: rev_induct)
  case Nil
  then show ?case using assms(2,3) by (simp add: newest_def by_key_Nil)
next
  case (snoc v vs)
  then obtain c1 where c1: "setValues c vs = Inr c1"
    "keys c1 = map Key (newest (nat (capacity c)) vs)"
    "values_map c1 = by_key (newest (nat (capacity c)) vs)"
    "capacity c1 = capacity c" "client c1 = client c" "backend c1 = backend c" "queue c1 = queue c"
    by auto
  have d: "distinct (map Key (newest (nat (capacity c)) vs))"
    using snoc.prems(1) by (simp add: newest_def distinct_drop flip: drop_map)
  have inv: "log_inv c1"
    unfolding log_inv_def c1 using d by (simp add: dom_by_key)
  have fresh: "Key v \<notin> set (keys c1)"
    using snoc.prems(1) unfolding c1 newest_def by (auto dest: in_set_dropD)
  have cv: "canCache (msg v)" using snoc.prems(2) by simp
  have cap: "0 < capacity c1" using assms(1) c1 by simp
  have len: "length (keys c1) = min (length vs) (nat (capacity c))"
    unfolding c1 newest_def by auto
  show ?case
  proof (cases "int (length (keys c1)) = capacity c1")
    case True
    then have ge: "nat (capacity c) \<le> length vs" using len c1(4) cap by linarith
    have nn: "newest (nat (capacity c)) (vs @ [v]) = tl (newest (nat (capacity c)) vs) @ [v]"
      using ge cap c1(4) by (simp add: newest_def drop_Suc tl_drop Suc_diff_le)
    have ne: "newest (nat (capacity c)) vs \<noteq> []"
      using ge cap c1(4) by (simp add: newest_def)
    then obtain h t where ht: "newest (nat (capacity c)) vs = h # t" by (cases "newest (nat (capacity c)) vs") auto
    have hk: "Key h \<notin> Key ` set t" using d ht by simp
    have "Key v \<notin> Key ` set t"
      using fresh c1(2) ht by auto
    then have "(by_key (h # t))(Key h := None, Key v \<mapsto> v) = by_key (t @ [v])"
      using hk by (simp add: by_key_drop_head by_key_snoc)
    then show ?thesis
      using setValue_fresh_full [OF inv cap cv fresh True] c1 nn ht
      by (simp add: setValues_snoc)
  next
    case False
    then have lt: "length vs < nat (capacity c)" using len c1(4) cap by linarith
    then have nn: "newest (nat (capacity c)) (vs @ [v]) = vs @ [v]" "newest (nat (capacity c)) vs = vs"
      by (simp_all add: newest_def)
    have "Key v \<notin> Key ` set vs"
      using fresh c1(2) nn by auto
    then have "(by_key vs)(Key v \<mapsto> v) = by_key (vs @ [v])"
      by (simp add: by_key_snoc)
    then show ?thesis
      using setValue_fresh_room [OF inv cap cv fresh False] c1 nn
      by (simp add: setValues_snoc)
  qed
qed


lemma Sets_setValues: "Sets c ops = setValues c (map mkValue ops)"
  by (induction c ops rule: Sets.induct)
     (auto simp: Set_msg_def set_msg_def mkValue_def split: sum.splits)

lemma by_key_present:
  "distinct (map Key vs) \<Longrightarrow> v \<in> set vs \<Longrightarrow> by_key vs (Key v) = Some v"
  by (simp add: by_key_def map_of_eq_Some_iff comp_def image_iff) 

text \<open>
  C4. A cache of capacity \<open>C > 0\<close> starts empty and receives \<open>C + 1\<close> calls of
  \<^verbatim>\<open>Set\<close> with pairwise distinct keys and cacheable messages, none of them expired at
  the time \<open>now\<close> of the later \<^verbatim>\<open>Get\<close>. No call panics. After the first \<open>C\<close> calls
  the log lists the keys in the order of insertion; the last call removes the head of
  that log, the first key. Afterwards \<^verbatim>\<open>Get\<close> of the first key returns no message and
  \<open>hit = false\<close>, and \<^verbatim>\<open>Get\<close> of every later key returns its message and \<open>hit = true\<close>.
\<close>

theorem fifo_eviction_first_key:
  assumes "0 < capacity c" and "values_map c = Map.empty" and "keys c = []"
    and "length ops = nat (capacity c) + 1"
    and "distinct (map (\<lambda>x. fst (snd x)) ops)"
    and "\<forall>x \<in> set ops. canCache (snd (snd x)) \<and> \<not> isExpired now (mkValue x)"
  shows "\<exists>c1 c'. Sets c (butlast ops) = Inr c1 \<and> Sets c ops = Inr c'
           \<and> keys c1 = map (\<lambda>x. fst (snd x)) (butlast ops)
           \<and> keys c' = tl (keys c1) @ [fst (snd (last ops))]
           \<and> fst (Get c' now (fst (snd (ops ! 0)))) = (None, False)
           \<and> (\<forall>i. 0 < i \<and> i < length ops \<longrightarrow>
                 fst (Get c' now (fst (snd (ops ! i)))) = (Some (snd (snd (ops ! i))), True))"
proof -
  let ?vs = "map mkValue ops"
  let ?C = "nat (capacity c)"
  have key: "Key (mkValue x) = fst (snd x)" "msg (mkValue x) = snd (snd x)" for x
    by (simp_all add: mkValue_def split: prod.splits)
  have mk: "map Key ?vs = map (\<lambda>x. fst (snd x)) ops"
    by (simp add: key comp_def)
  have d: "distinct (map Key ?vs)" using assms(5) by (simp add: comp_def key)
  have cc: "\<forall>v \<in> set ?vs. canCache (msg v)" using assms(6) by (auto simp: key)
  have len: "length ?vs = ?C + 1" using assms(4) by simp
  have ne: "ops \<noteq> []" using assms(4) by auto
  have n1: "newest ?C ?vs = tl ?vs" using len by (simp add: newest_def drop_Suc)
  have n0: "newest ?C (butlast ?vs) = butlast ?vs" using len by (simp add: newest_def)
  obtain c' where c': "setValues c ?vs = Inr c'" "keys c' = map Key (tl ?vs)"
      "values_map c' = by_key (tl ?vs)"
    using setValues_distinct [OF assms(1,2,3) d cc] n1 by auto
  have d0: "distinct (map Key (butlast ?vs))"
    using d by (simp add: distinct_butlast map_butlast)
  have cc0: "\<forall>v \<in> set (butlast ?vs). canCache (msg v)"
    using cc in_set_butlastD [of _ "map mkValue ops"] by blast
  obtain c1 where c1: "setValues c (butlast ?vs) = Inr c1" "keys c1 = map Key (butlast ?vs)"
    using setValues_distinct [OF assms(1,2,3) d0 cc0] n0 by auto
  have k1: "keys c1 = map (\<lambda>x. fst (snd x)) (butlast ops)"
    using c1(2) by (simp add: map_butlast key comp_def)
  have "2 \<le> length ops" using assms(1,4) by linarith
  then have "butlast ops \<noteq> []" by (cases ops rule: rev_cases) auto
  then have "tl (map Key (butlast ?vs)) @ [Key (last ?vs)] = map Key (tl ?vs)"
    using ne by (cases ops rule: rev_cases) (auto simp: map_tl)
  then have k2: "keys c' = tl (keys c1) @ [fst (snd (last ops))]"
    using c'(2) c1(2) ne by (simp add: last_map key)
  have "Key (hd ?vs) \<notin> Key ` set (tl ?vs)"
    using d ne by (cases ops) auto
  then have "values_map c' (fst (snd (ops ! 0))) = None"
    using ne c'(3) by_key_absent [of "Key (hd ?vs)" "tl ?vs"] by (simp add: hd_map key hd_conv_nth)
  then have miss: "fst (Get c' now (fst (snd (ops ! 0)))) = (None, False)"
    by (simp add: Get_def getValue_def)
  have hit: "fst (Get c' now (fst (snd (ops ! i)))) = (Some (snd (snd (ops ! i))), True)"
    if i: "0 < i" "i < length ops" for i
  proof -
    have mem: "?vs ! i \<in> set (tl ?vs)"
      using i ne by (cases ops) (auto simp: nth_Cons' )
    have "distinct (map Key (tl ?vs))" using d by (simp add: distinct_tl map_tl)
    then have "values_map c' (Key (?vs ! i)) = Some (?vs ! i)"
      using by_key_present [OF _ mem] c'(3) by simp
    moreover have "\<not> isExpired now (?vs ! i)" using assms(6) i by simp
    ultimately show ?thesis using i by (simp add: Get_def getValue_def key)
  qed
  show ?thesis
    using c'(1) c1(1) k1 k2 miss hit by (simp add: Sets_setValues map_butlast)
qed

theorem fifo_eviction_first_key_witness:
  "0 < capacity (empty_cache 2 None SuppliedBackend)
   \<and> length three_sets = nat (capacity (empty_cache 2 None SuppliedBackend)) + 1
   \<and> distinct (map (\<lambda>x. fst (snd x)) three_sets)
   \<and> canCache (reply 0 300)
   \<and> \<not> isExpired 5 (mkValue (0, 1, reply 0 300))
   \<and> map_sum id keys (Sets (empty_cache 2 None SuppliedBackend) three_sets) = Inr [2, 3]
   \<and> fst (Get (projr (Sets (empty_cache 2 None SuppliedBackend) three_sets)) 5 1) = (None, False)
   \<and> fst (Get (projr (Sets (empty_cache 2 None SuppliedBackend) three_sets)) 5 2)
        = (Some (reply 0 300), True)
   \<and> fst (Get (projr (Sets (empty_cache 2 None SuppliedBackend) three_sets)) 5 3)
        = (Some (reply 0 300), True)"
proof -
  let ?c = "empty_cache 2 None SuppliedBackend"
  have h1: "0 < capacity ?c" and h2: "values_map ?c = Map.empty" and h3: "keys ?c = []"
    by (simp_all add: empty_cache_def)
  have h4: "length three_sets = nat (capacity ?c) + 1"
    by (simp add: empty_cache_def three_sets_def)
  have h5: "distinct (map (\<lambda>x. fst (snd x)) three_sets)"
    by (simp add: three_sets_def)
  have e: "\<not> isExpired 5 (mkValue (0, 1, reply 0 300))"
    by (simp add: mkValue_def isExpired_entry)
  have h6: "\<forall>x \<in> set three_sets. canCache (snd (snd x)) \<and> \<not> isExpired 5 (mkValue x)"
    by (simp add: three_sets_def canCache_reply_ok mkValue_def isExpired_entry)
  show ?thesis
    using fifo_eviction_first_key [OF h1 h2 h3 h4 h5 h6]
    apply (elim exE conjE)
    subgoal premises p for c1 c'
    proof -
      have g0: "keys c' = [2, 3]"
        using p(3,4) by (simp add: three_sets_def)
      have g1: "fst (Get c' 5 1) = (None, False)"
        using p(5) by (simp add: three_sets_def)
      have g2: "fst (Get c' 5 2) = (Some (reply 0 300), True)"
        using p(6) [rule_format, of 1] by (simp add: three_sets_def)
      have g3: "fst (Get c' 5 3) = (Some (reply 0 300), True)"
        using p(6) [rule_format, of 2] by (simp add: three_sets_def)
      show ?thesis
        unfolding p(2) using h1 h4 h5 canCache_reply_ok e g0 g1 g2 g3
        by (simp only: sum.sel map_sum.simps id_apply simp_thms)
    qed
    done
qed

subsection \<open>Expiry on read\<close>

text \<open>
  C3. For an entry \<open>v\<close> stored under \<open>key\<close>, \<^verbatim>\<open>Get\<close> treats the entry as expired
  exactly when the clock reading is strictly greater than the creation instant plus the
  minimum TTL of the message (seconds, counted in nanoseconds; the product does not
  overflow). An expired entry without a resolver client gives \<open>hit = false\<close> and the
  task \<^verbatim>\<open>evict(key)\<close> at the end of the queue; with a client it gives the stale
  message, \<open>hit = true\<close> and the task \<^verbatim>\<open>refresh(key, msg)\<close>. An entry that is not
  expired is returned with \<open>hit = true\<close> and nothing is enqueued.
\<close>

theorem Get_present_expiry:
  assumes "values_map c key = Some v"
  shows "Get c now key =
     (if now > CreatedAt v + uint (MinTTL_seconds (msg v)) * 1000000000 then
        (if client c = None
         then ((None, False), c\<lparr>queue := queue c @ [EvictTask key]\<rparr>)
         else ((Some (msg v), True), c\<lparr>queue := queue c @ [RefreshTask key (msg v)]\<rparr>))
      else ((Some (msg v), True), c))"
  using assms
  by (simp add: Get_def getValue_def isExpired_def MinTTL_exact prefetch_def enqueue_def)

theorem Get_present_expiry_witness:
  "values_map (one_entry None) 7 = Some (entry 7)
   \<and> Get (one_entry None) 301000000000 7
       = ((None, False), (one_entry None)\<lparr>queue := [EvictTask 7]\<rparr>)
   \<and> Get (one_entry None) 299000000000 7 = ((Some (reply 0 300), True), one_entry None)"
proof -
  have h: "values_map (one_entry None) 7 = Some (entry 7)"
    by (simp add: one_entry_def)
  show ?thesis
    using h Get_present_expiry [OF h, of 301000000000] Get_present_expiry [OF h, of 299000000000]
    by (simp add: entry_def min32_def one_entry_def)
qed

text \<open>
  With an empty queue before the read, the worker's next step after the read of an
  expired entry without a client is the eviction of the key.
\<close>

lemma worker_evicts_expired:
  assumes "values_map c key = Some v" and "isExpired now v" and "client c = None"
    and "queue c = []"
  shows "runTask (snd (Get c now key)) t outcome = Inr (evict c key)"
  using assms
  by (simp add: Get_def getValue_def prefetch_def enqueue_def runTask_def evict_def removeKey_def
      backend_Evict_def Let_def split: backend_ref.splits)

subsection \<open>Refresh\<close>

lemma evict_fields:
  "values_map (evict c key) = (values_map c)(key := None)"
  "keys (evict c key) = filter (\<lambda>k. k \<noteq> key) (keys c)"
  "received (evict c key) =
     (case backend c of
        DefaultBackend \<Rightarrow> received c
      | SuppliedBackend \<Rightarrow> received c @ [Evict_call key])"
  "capacity (evict c key) = capacity c"
  "backend (evict c key) = backend c"
  "client (evict c key) = client c"
  "queue (evict c key) = queue c"
  by (simp_all add: evict_def removeKey_def backend_Evict_def Let_def split: backend_ref.splits)

text \<open>
  C9. A refresh whose resolver call returns a reply that is not cacheable does not
  panic (the old message has a question and the client is set) and evicts the entry:
  the key is removed from the map and from the log, and the backend of the cache
  receives \<^verbatim>\<open>Evict(key)\<close>. Nothing else changes.
\<close>

theorem refresh_not_cacheable_evicts:
  assumes "Question old \<noteq> []" and "client c \<noteq> None" and "\<not> canCache r"
  shows "\<exists>c'. refresh c now key old (Inr r) = Inr c'
           \<and> c' = evict c key
           \<and> values_map c' = (values_map c)(key := None)
           \<and> values_map c' key = None
           \<and> keys c' = filter (\<lambda>k. k \<noteq> key) (keys c)
           \<and> key \<notin> set (keys c')
           \<and> received c' =
               (case backend c of
                  DefaultBackend \<Rightarrow> received c
                | SuppliedBackend \<Rightarrow> received c @ [Evict_call key])"
proof -
  obtain q qs where q: "Question old = q # qs"
    using assms(1) by (cases "Question old") auto
  obtain cl where cl: "client c = Some cl"
    using assms(2) by auto
  have s: "set_msg c now key r = Inr (False, c)"
    using assms(3) by (simp add: set_msg_def setValue_def)
  have "refresh c now key old (Inr r) = Inr (evict c key)"
    by (simp add: refresh_def q cl s)
  then show ?thesis by (simp add: evict_fields)
qed

theorem refresh_not_cacheable_evicts_witness:
  "Question (reply 0 300) \<noteq> []
   \<and> client (one_entry (Some \<lparr>Addresses = [''192.0.2.1:53'']\<rparr>)) \<noteq> None
   \<and> \<not> canCache (reply 2 300)
   \<and> map_sum id keys
        (refresh (one_entry (Some \<lparr>Addresses = [''192.0.2.1:53'']\<rparr>)) 5 7 (reply 0 300)
           (Inr (reply 2 300))) = Inr []
   \<and> map_sum id (\<lambda>c. values_map c 7)
        (refresh (one_entry (Some \<lparr>Addresses = [''192.0.2.1:53'']\<rparr>)) 5 7 (reply 0 300)
           (Inr (reply 2 300))) = Inr None
   \<and> map_sum id received
        (refresh (one_entry (Some \<lparr>Addresses = [''192.0.2.1:53'']\<rparr>)) 5 7 (reply 0 300)
           (Inr (reply 2 300))) = Inr [Evict_call 7]"
proof -
  let ?c = "one_entry (Some \<lparr>Addresses = [''192.0.2.1:53'']\<rparr>)"
  have h1: "Question (reply 0 300) \<noteq> []" by (simp add: reply_def)
  have h2: "client ?c \<noteq> None" by (simp add: one_entry_def)
  show ?thesis
    using refresh_not_cacheable_evicts [OF h1 h2 canCache_reply_servfail, of 5 7] h1 h2
      canCache_reply_servfail
    by (auto simp: one_entry_def)
qed

subsection \<open>Construction\<close>

lemma newCache_zero:
  "newCache 0 cl stored = Inr ((empty_cache 0 cl DefaultBackend)\<lparr>received := [Reset_call]\<rparr>)"
  by (simp add: newCache_def load_def empty_cache_def)

lemma newCache_empty_backend:
  "0 < cap \<Longrightarrow> newCache cap cl [] = Inr (empty_cache cap cl SuppliedBackend)"
  by (simp add: newCache_def load_def empty_cache_def)

lemma apply_op_capacity_zero:
  assumes "capacity c = 0" "values_map c = Map.empty" "keys c = []" "queue c = []"
    "backend c = DefaultBackend"
  shows "apply_op c x = Inr c"
  using assms
  by (cases x)
     (simp_all add: Set_msg_def set_msg_def setValue_def Get_def getValue_def Reset_def
        backend_Reset_def runTask_def)

lemma run_capacity_zero:
  assumes "capacity c = 0" "values_map c = Map.empty" "keys c = []" "queue c = []"
    "backend c = DefaultBackend"
  shows "run c xs = Inr c"
  using assms by (induction xs) (simp_all add: apply_op_capacity_zero)

text \<open>
  C8. With a negative capacity the constructor returns what it returns for capacity 0:
  the capacity of the cache is 0, the backend given to the constructor has received
  \<^verbatim>\<open>Reset\<close> and nothing else, and the cache keeps the default backend. Every \<^verbatim>\<open>set\<close>
  returns false and leaves the cache as it is, and so does every run of \<^verbatim>\<open>Set\<close>,
  \<^verbatim>\<open>Get\<close>, \<^verbatim>\<open>Reset\<close> and worker steps: the given backend is never attached and
  receives no further call.
\<close>

theorem newCache_negative_capacity:
  assumes "cap < 0"
  shows "newCache cap cl stored = newCache 0 cl stored
       \<and> (\<exists>c. newCache cap cl stored = Inr c
              \<and> capacity c = 0 \<and> backend c = DefaultBackend \<and> received c = [Reset_call]
              \<and> values_map c = Map.empty \<and> keys c = []
              \<and> (\<forall>now key m. set_msg c now key m = Inr (False, c))
              \<and> (\<forall>ops. run c ops = Inr c))"
proof -
  have eq: "newCache cap cl stored = newCache 0 cl stored"
    using assms by (simp add: newCache_def)
  let ?c = "(empty_cache 0 cl DefaultBackend)\<lparr>received := [Reset_call]\<rparr>"
  have "\<forall>ops. run ?c ops = Inr ?c"
    by (simp add: run_capacity_zero empty_cache_def)
  moreover have "\<forall>now key m. set_msg ?c now key m = Inr (False, ?c)"
    by (simp add: set_msg_def setValue_def empty_cache_def)
  ultimately show ?thesis
    unfolding eq newCache_zero by (simp add: empty_cache_def)
qed

theorem newCache_negative_capacity_witness:
  "(-1 :: int) < 0
   \<and> newCache (-1) None five_stored = newCache 0 None five_stored
   \<and> map_sum id capacity (newCache (-1) None five_stored) = Inr 0
   \<and> map_sum id backend (newCache (-1) None five_stored) = Inr DefaultBackend
   \<and> map_sum id received (newCache (-1) None five_stored) = Inr [Reset_call]
   \<and> map_sum id keys (newCache (-1) None five_stored) = Inr []"
proof -
  have h: "(-1 :: int) < 0" by simp
  show ?thesis
    using newCache_negative_capacity [OF h, of None five_stored]
    apply (elim exE conjE)
    subgoal premises p for c
    proof -
      have e: "newCache 0 None five_stored = Inr c"
        using p(1,2) by simp
      show ?thesis
        using h p(1) by (simp add: e p(3,4,5,7))
    qed
    done
qed

subsection \<open>Overflow and the calls to the backend\<close>

text \<open>
  C1, as the code behaves. A cache of capacity 2 with no entries forwards its writes to
  the given backend. After \<^verbatim>\<open>Set\<close> of three distinct keys with cacheable messages the
  map holds exactly the second and the third key, and the backend has received, after
  what it had received before, \<^verbatim>\<open>Set(k1)\<close>, \<^verbatim>\<open>Set(k2)\<close>, \<^verbatim>\<open>Evict(k1)\<close>, \<^verbatim>\<open>Set(k3)\<close>
  in this order: the eviction of the head precedes the \<^verbatim>\<open>Set\<close> of the key that
  overflows.
\<close>

theorem fifo_overflow_backend_calls:
  assumes "capacity c = 2" and "values_map c = Map.empty" and "keys c = []"
    and "backend c = SuppliedBackend"
    and "distinct [k1, k2, k3]" and "canCache m1" and "canCache m2" and "canCache m3"
  shows "\<exists>c'. Sets c [(t1, k1, m1), (t2, k2, m2), (t3, k3, m3)] = Inr c'
           \<and> dom (values_map c') = {k2, k3}
           \<and> keys c' = [k2, k3]
           \<and> received c' = received c @
                [Set_call k1 \<lparr>Key = k1, CreatedAt = t1, msg = m1\<rparr>,
                 Set_call k2 \<lparr>Key = k2, CreatedAt = t2, msg = m2\<rparr>,
                 Evict_call k1,
                 Set_call k3 \<lparr>Key = k3, CreatedAt = t3, msg = m3\<rparr>]"
  using assms
  by (auto simp: Set_msg_def set_msg_def setValue_def len_values_def appendKey_def
      removeKey_def backend_Set_def backend_Evict_def Let_def)

theorem fifo_overflow_backend_calls_witness:
  "capacity (empty_cache 2 None SuppliedBackend) = 2
   \<and> backend (empty_cache 2 None SuppliedBackend) = SuppliedBackend
   \<and> distinct [1, 2, 3 :: 32 word] \<and> canCache (reply 0 300)
   \<and> map_sum id keys (Sets (empty_cache 2 None SuppliedBackend) three_sets) = Inr [2, 3]
   \<and> map_sum id received (Sets (empty_cache 2 None SuppliedBackend) three_sets)
      = Inr [Set_call 1 (entry 1), Set_call 2 (entry 2), Evict_call 1, Set_call 3 (entry 3)]"
proof -
  let ?c = "empty_cache 2 None SuppliedBackend"
  have h: "capacity ?c = 2" "values_map ?c = Map.empty" "keys ?c = []"
    "backend ?c = SuppliedBackend" "received ?c = []"
    by (simp_all add: empty_cache_def)
  have d: "distinct [1, 2, 3 :: 32 word]" by simp
  obtain c' where r: "Sets ?c [(0, 1, reply 0 300), (0, 2, reply 0 300), (0, 3, reply 0 300)] = Inr c'"
    "keys c' = [2, 3]"
    "received c' = received ?c @
        [Set_call 1 \<lparr>Key = 1, CreatedAt = 0, msg = reply 0 300\<rparr>,
         Set_call 2 \<lparr>Key = 2, CreatedAt = 0, msg = reply 0 300\<rparr>,
         Evict_call 1,
         Set_call 3 \<lparr>Key = 3, CreatedAt = 0, msg = reply 0 300\<rparr>]"
    using fifo_overflow_backend_calls [OF h(1,2,3,4) d canCache_reply_ok canCache_reply_ok
        canCache_reply_ok, of 0 0 0] by blast
  show ?thesis
    unfolding three_sets_def r(1) using h(1,4,5) d canCache_reply_ok r(2,3)
    by (simp add: entry_def)
qed

text \<open>
  The order of the claim, with \<^verbatim>\<open>Evict(k1)\<close> after \<^verbatim>\<open>Set(k3)\<close>, is not the order of
  the calls: keys 1, 2, 3 in a cache of capacity 2.
\<close>

theorem fifo_overflow_claimed_order_counterexample:
  "map_sum id received (Sets (empty_cache 2 None SuppliedBackend) three_sets)
   \<noteq> Inr [Set_call 1 (entry 1), Set_call 2 (entry 2), Set_call 3 (entry 3), Evict_call 1]"
  by (simp add: Set_msg_def set_msg_def setValue_def len_values_def appendKey_def three_sets_def
      removeKey_def backend_Set_def backend_Evict_def Let_def canCache_reply_ok empty_cache_def)

subsection \<open>Loading from the backend\<close>

lemma setValue_default_backend:
  assumes "backend c = DefaultBackend" "setValue c v = Inr (ok, c')"
  shows "received c' = received c \<and> backend c' = DefaultBackend"
  using assms
  by (auto simp: setValue_def backend_Set_def backend_Evict_def appendKey_def removeKey_def Let_def
      split: if_splits list.splits)

lemma setValues_default_backend:
  "backend c = DefaultBackend \<Longrightarrow> setValues c vs = Inr c' \<Longrightarrow>
     received c' = received c \<and> backend c' = DefaultBackend"
proof (induction vs arbitrary: c)
  case Nil
  then show ?case by simp
next
  case (Cons v vs)
  from Cons.prems(2) obtain ok c1 where s: "setValue c v = Inr (ok, c1)" "setValues c1 vs = Inr c'"
    by (auto split: sum.splits)
  from setValue_default_backend [OF Cons.prems(1) s(1)] Cons.IH [OF _ s(2)]
  show ?case by simp
qed

text \<open>
  What \<^verbatim>\<open>load\<close> does with values of distinct keys and cacheable messages. Within the
  capacity all values are loaded and the backend receives no call.
\<close>

lemma load_within_capacity:
  assumes "0 < cap" and "int (length stored) \<le> cap"
    and "distinct (map Key stored)" and "\<forall>v \<in> set stored. canCache (msg v)"
  shows "\<exists>c. newCache cap cl stored = Inr c
           \<and> keys c = map Key stored \<and> values_map c = by_key stored
           \<and> received c = [] \<and> backend c = SuppliedBackend"
proof -
  let ?c = "empty_cache cap cl DefaultBackend"
  have h: "0 < capacity ?c" "values_map ?c = Map.empty" "keys ?c = []"
    using assms(1) by (simp_all add: empty_cache_def)
  have n: "newest (nat (capacity ?c)) stored = stored"
    using assms(2) by (simp add: newest_def empty_cache_def)
  obtain c1 where c1: "setValues ?c stored = Inr c1" "keys c1 = map Key stored"
    "values_map c1 = by_key stored"
    using setValues_distinct [OF h assms(3,4)] n by auto
  have r: "received c1 = []"
    using setValues_default_backend [OF _ c1(1)] by (simp add: empty_cache_def)
  have "newCache cap cl stored = Inr (c1\<lparr>backend := SuppliedBackend\<rparr>)"
    using assms(1,2) c1(1) by (simp add: newCache_def load_def empty_cache_def)
  then show ?thesis using c1 r by simp
qed

text \<open>
  Beyond the capacity \<open>C\<close> the values from index \<open>C\<close> on are inserted, of which the
  last \<open>C\<close> remain, and the first \<open>C\<close> values are evicted from the backend.
\<close>

lemma load_beyond_capacity:
  assumes "0 < cap" and "cap < int (length stored)"
    and "distinct (map Key stored)" and "\<forall>v \<in> set stored. canCache (msg v)"
  shows "\<exists>c. newCache cap cl stored = Inr c
           \<and> keys c = map Key (newest (nat cap) (drop (nat cap) stored))
           \<and> values_map c = by_key (newest (nat cap) (drop (nat cap) stored))
           \<and> received c = map (\<lambda>v. Evict_call (Key v)) (take (nat cap) stored)
           \<and> backend c = SuppliedBackend"
proof -
  let ?c = "empty_cache cap cl DefaultBackend"
  let ?vs = "drop (nat cap) stored"
  have h: "0 < capacity ?c" "values_map ?c = Map.empty" "keys ?c = []"
    using assms(1) by (simp_all add: empty_cache_def)
  have d: "distinct (map Key ?vs)"
    using assms(3) by (simp add: distinct_drop flip: drop_map)
  have cc: "\<forall>v \<in> set ?vs. canCache (msg v)"
    using assms(4) by (auto dest: in_set_dropD)
  obtain c1 where c1: "setValues ?c ?vs = Inr c1"
    "keys c1 = map Key (newest (nat (capacity ?c)) ?vs)"
    "values_map c1 = by_key (newest (nat (capacity ?c)) ?vs)"
    using setValues_distinct [OF h d cc] by auto
  have r: "received c1 = []"
    using setValues_default_backend [OF _ c1(1)] by (simp add: empty_cache_def)
  have "newCache cap cl stored =
      Inr (c1\<lparr>received := received c1 @ map (\<lambda>v. Evict_call (Key v)) (take (nat cap) stored),
              backend := SuppliedBackend\<rparr>)"
    using assms(1,2) c1(1) by (simp add: newCache_def load_def empty_cache_def)
  then show ?thesis using c1 r by (simp add: empty_cache_def)
qed

text \<open>
  C2, at five persisted values and capacity 3. \<^verbatim>\<open>load\<close> sets \<open>n\<close> to the capacity and
  inserts \<^verbatim>\<open>values[n:]\<close>, the values from index 3 on: the cache holds the keys 4 and
  5, not the newest three; the backend receives \<^verbatim>\<open>Evict\<close> for \<^verbatim>\<open>values[:n]\<close>, the
  keys 1, 2 and 3, not for the oldest two; \<^verbatim>\<open>List(3)\<close> returns two values.
\<close>

theorem load_five_capacity_three:
  "map_sum id keys (newCache 3 None five_stored) = Inr [4, 5]
   \<and> map_sum id (\<lambda>c. dom (values_map c)) (newCache 3 None five_stored) = Inr {4, 5}
   \<and> map_sum id received (newCache 3 None five_stored)
       = Inr [Evict_call 1, Evict_call 2, Evict_call 3]
   \<and> List (projr (newCache 3 None five_stored)) 3 = Inr [Some (entry 5), Some (entry 4)]"
  by (simp add: newCache_def load_def five_stored_def setValue_def entry_def canCache_reply_ok
      len_values_def appendKey_def removeKey_def backend_Set_def backend_Evict_def List_def
      insert_commute)

subsection \<open>Hijacking in the mode Hosts\<close>

lemma splitAddrs_filter:
  "splitAddrs (v4, v6) ipAddrs =
     (v4 @ filter (\<lambda>ip. To4 ip \<noteq> None) (map IP ipAddrs),
      v6 @ filter (\<lambda>ip. To4 ip = None) (map IP ipAddrs))"
  by (induction ipAddrs arbitrary: v4 v6) auto

text \<open>
  C7. In the mode \<^verbatim>\<open>HijackHosts\<close>, for a request of type A or AAAA whose name (without
  the trailing dot) the hosts know, \<^verbatim>\<open>hijack\<close> returns a reply. For type A its answer
  section has one A record for each configured address with \<^verbatim>\<open>To4() != nil\<close>, the IPv4
  entries, in their order and nothing else; for type AAAA one AAAA record for each
  address with \<^verbatim>\<open>To4() == nil\<close>, the IPv6 entries. When the hosts have no address of
  the family asked for, the answer section is empty.
\<close>

theorem hijack_hosts_partition:
  assumes "hijackMode s = HijackHosts"
    and "Type r = TypeA \<or> Type r = TypeAAAA"
    and "hosts_Get s (nonFqdn (Name r)) = Some ipAddrs"
  shows "\<exists>rep. hijack s r = Some rep
     \<and> (Type r = TypeA \<longrightarrow>
          answers rep = map (A_record (Name r)) (filter (\<lambda>ip. To4 ip \<noteq> None) (map IP ipAddrs)))
     \<and> (Type r = TypeAAAA \<longrightarrow>
          answers rep = map (AAAA_record (Name r)) (filter (\<lambda>ip. To4 ip = None) (map IP ipAddrs)))
     \<and> (Type r = TypeA \<and> (\<forall>a \<in> set ipAddrs. To4 (IP a) = None) \<longrightarrow> answers rep = [])
     \<and> (Type r = TypeAAAA \<and> (\<forall>a \<in> set ipAddrs. To4 (IP a) \<noteq> None) \<longrightarrow> answers rep = [])"
  using assms
  by (auto simp: hijack_def splitAddrs_filter ReplyA_def ReplyAAAA_def HijackHosts_def
      HijackZero_def HijackEmpty_def TypeA_def TypeAAAA_def filter_empty_conv)

theorem hijack_hosts_partition_witness:
  "hijackMode ads_server = HijackHosts
   \<and> hosts_Get ads_server (nonFqdn ''ads.example.'') = Some [\<lparr>IP = [1, 2, 3, 4], Zone = []\<rparr>]
   \<and> map_option answers (hijack ads_server \<lparr>Type = TypeA, Name = ''ads.example.''\<rparr>)
       = Some [A_record ''ads.example.'' [1, 2, 3, 4]]
   \<and> map_option answers (hijack ads_server \<lparr>Type = TypeAAAA, Name = ''ads.example.''\<rparr>)
       = Some []"
proof -
  have m: "hijackMode ads_server = HijackHosts"
    by (simp add: ads_server_def HijackHosts_def)
  have g: "hosts_Get ads_server (nonFqdn ''ads.example.'') = Some [\<lparr>IP = [1, 2, 3, 4], Zone = []\<rparr>]"
    by (simp add: ads_server_def nonFqdn_def)
  have ta: "Type \<lparr>Type = TypeA, Name = ''ads.example.''\<rparr> = TypeA
            \<or> Type \<lparr>Type = TypeA, Name = ''ads.example.''\<rparr> = TypeAAAA" by simp
  have tb: "Type \<lparr>Type = TypeAAAA, Name = ''ads.example.''\<rparr> = TypeA
            \<or> Type \<lparr>Type = TypeAAAA, Name = ''ads.example.''\<rparr> = TypeAAAA" by simp
  have ga: "hosts_Get ads_server (nonFqdn (Name \<lparr>Type = TypeA, Name = ''ads.example.''\<rparr>))
      = Some [\<lparr>IP = [1, 2, 3, 4], Zone = []\<rparr>]" using g by simp
  have gb: "hosts_Get ads_server (nonFqdn (Name \<lparr>Type = TypeAAAA, Name = ''ads.example.''\<rparr>))
      = Some [\<lparr>IP = [1, 2, 3, 4], Zone = []\<rparr>]" using g by simp
  show ?thesis
    using hijack_hosts_partition [OF m ta ga] hijack_hosts_partition [OF m tb gb] m g
    by (auto simp: To4_def TypeA_def TypeAAAA_def)
qed

subsection \<open>The persisted line\<close>

lemma digit_val_digit_char: "d < 10 \<Longrightarrow> digit_val (digit_char d) = Some d"
  by (simp add: digit_val_def digit_char_def)

lemma plain_digit_char: "d < 10 \<Longrightarrow> plain (digit_char d)"
  by (simp add: plain_def digit_char_def)

lemma plain_hex_char: "n < 16 \<Longrightarrow> plain (hex_char n)"
  by (simp add: plain_def hex_char_def)

lemma plain_minus: "plain CHR ''-''"
  by (simp add: plain_def)

lemma fromHexChar_hex_char: "n < 16 \<Longrightarrow> fromHexChar (hex_char n) = Some n"
  by (simp add: fromHexChar_def hex_char_def)

lemma FormatUint_not_Nil: "FormatUint n \<noteq> []"
  by (subst FormatUint.simps) simp

lemma FormatUint_plain: "\<forall>c \<in> set (FormatUint n). plain c"
proof (induction n rule: FormatUint.induct)
  case (1 n)
  show ?case
  proof (cases "n < 10")
    case True
    then show ?thesis by (subst FormatUint.simps) (simp add: plain_digit_char)
  next
    case False
    then show ?thesis using 1 by (subst FormatUint.simps) (simp add: plain_digit_char)
  qed
qed

lemma FormatUint_hd_digit: "digit_val (hd (FormatUint n)) \<noteq> None"
proof (induction n rule: FormatUint.induct)
  case (1 n)
  show ?case
  proof (cases "n < 10")
    case True
    then show ?thesis by (subst FormatUint.simps) (simp add: digit_val_digit_char)
  next
    case False
    then show ?thesis using 1 FormatUint_not_Nil [of "n div 10"]
      by (subst FormatUint.simps) simp
  qed
qed

lemma parse_digits_snoc:
  "parse_digits mx n (cs @ [c]) =
     (case parse_digits mx n cs of
        Inl e \<Rightarrow> Inl e
      | Inr a \<Rightarrow>
          (case digit_val c of
             None \<Rightarrow> Inl ErrSyntax
           | Some d \<Rightarrow> if mx < a * 10 + d then Inl ErrRange else Inr (a * 10 + d)))"
  by (induction cs arbitrary: n) (auto split: option.splits)

lemma parse_digits_FormatUint: "n \<le> mx \<Longrightarrow> parse_digits mx 0 (FormatUint n) = Inr n"
proof (induction n rule: FormatUint.induct)
  case (1 n)
  show ?case
  proof (cases "n < 10")
    case True
    then show ?thesis using 1(2)
      by (subst FormatUint.simps) (simp add: digit_val_digit_char)
  next
    case False
    have "n div 10 \<le> mx" using 1(2) by (meson div_le_dividend le_trans)
    then have "parse_digits mx 0 (FormatUint (n div 10)) = Inr (n div 10)"
      using 1(1) False by simp
    then show ?thesis using False 1(2)
      by (subst FormatUint.simps) (simp add: parse_digits_snoc digit_val_digit_char)
  qed
qed

lemma ParseUint_FormatUint: "n < 2 ^ b \<Longrightarrow> ParseUint (FormatUint n) b = Inr n"
  by (simp add: ParseUint_def FormatUint_not_Nil parse_digits_FormatUint)

lemma hd_FormatUint_not_sign: "hd (FormatUint n) \<noteq> CHR ''-''" "hd (FormatUint n) \<noteq> CHR ''+''"
  using FormatUint_hd_digit [of n] by (auto simp: digit_val_def)

lemma ParseInt_FormatInt:
  assumes "- (2 ^ 63) \<le> i" "i < 2 ^ 63"
  shows "ParseInt (FormatInt i) 64 = Inr i"
proof (cases "i < 0")
  case True
  then have "nat (- i) \<le> 2 ^ 63" using assms(1) by (simp add: nat_le_iff)
  then have "nat (- i) < 2 ^ 64" "\<not> nat (- i) > 2 ^ 63" by simp_all
  then show ?thesis using True
    by (simp add: ParseInt_def FormatInt_def ParseUint_FormatUint)
next
  case False
  then have lt: "nat i < 2 ^ 63" using assms(2) by (simp add: nat_less_iff)
  then have "nat i < 2 ^ 64" by simp
  then show ?thesis using False lt
    by (simp add: ParseInt_def FormatInt_def ParseUint_FormatUint hd_FormatUint_not_sign
        FormatUint_not_Nil)
qed

lemma FormatInt_plain: "\<forall>c \<in> set (FormatInt i). plain c"
  by (simp add: FormatInt_def FormatUint_plain plain_minus)

lemma FormatInt_not_Nil: "FormatInt i \<noteq> []"
  by (simp add: FormatInt_def FormatUint_not_Nil)

lemma DecodeString_EncodeToString: "DecodeString (EncodeToString bs) = Inr bs"
proof (induction bs)
  case Nil
  show ?case by simp
next
  case (Cons b bs)
  have "unat b < 256" using unsigned_less [of b, where ?'a = nat] by simp
  then have "unat b div 16 < 16" by simp
  moreover have "unat b mod 16 < 16" by simp
  moreover have "(word_of_nat (unat b div 16 * 16 + unat b mod 16) :: 8 word) = b" by simp
  ultimately show ?case using Cons by (simp add: fromHexChar_hex_char)
qed

lemma EncodeToString_plain: "\<forall>c \<in> set (EncodeToString bs). plain c"
proof (induction bs)
  case Nil
  show ?case by simp
next
  case (Cons b bs)
  have "unat b < 256" using unsigned_less [of b, where ?'a = nat] by simp
  then have "unat b div 16 < 16" by simp
  then show ?case using Cons by (simp add: plain_hex_char)
qed

lemma EncodeToString_not_Nil: "bs \<noteq> [] \<Longrightarrow> EncodeToString bs \<noteq> []"
  by (cases bs) simp_all

lemma space_prefix_plain: "plain c \<Longrightarrow> space_prefix (c # cs) = 0"
  by (auto simp: space_prefix_def plain_def)

lemma space_prefix_space: "space_prefix (CHR '' '' # cs) = 1"
  by (simp add: space_prefix_def)

lemma fields_scan_plain:
  "\<forall>c \<in> set w. plain c \<Longrightarrow> fields_scan cur 0 (w @ rest) = fields_scan (cur @ w) 0 rest"
  by (induction w arbitrary: cur) (simp_all add: space_prefix_plain)

lemma fields_scan_space:
  "fields_scan cur 0 (CHR '' '' # rest) = (if cur = [] then [] else [cur]) @ fields_scan [] 0 rest"
  by (simp add: space_prefix_space)

lemma fields_scan_word_space:
  assumes "\<forall>c \<in> set w. plain c" "w \<noteq> []"
  shows "fields_scan [] 0 (w @ CHR '' '' # rest) = w # fields_scan [] 0 rest"
  using assms by (simp add: fields_scan_plain space_prefix_space Let_def)

lemma fields_scan_word_end:
  assumes "\<forall>c \<in> set w. plain c" "w \<noteq> []"
  shows "fields_scan [] 0 w = [w]"
  using assms fields_scan_plain [of w "[]" "[]"] by simp

lemma Fields_three:
  assumes "\<forall>c \<in> set a. plain c" "a \<noteq> []" "\<forall>c \<in> set b. plain c" "b \<noteq> []"
    "\<forall>c \<in> set d. plain c" "d \<noteq> []"
  shows "Fields (a @ '' '' @ b @ '' '' @ d) = [a, b, d]"
  using assms by (simp add: Fields_def fields_scan_word_space fields_scan_word_end)

lemma Fields_three_more:
  assumes "\<forall>c \<in> set a. plain c" "a \<noteq> []" "\<forall>c \<in> set b. plain c" "b \<noteq> []"
    "\<forall>c \<in> set d. plain c" "d \<noteq> []"
  shows "Fields ((a @ '' '' @ b @ '' '' @ d) @ '' '' @ x) = a # b # d # Fields x"
  using assms by (simp add: Fields_def fields_scan_word_space)

lemma Unpack_first_three:
  assumes "3 \<le> length (Fields s)" "take 3 (Fields s) = take 3 (Fields s')"
  shows "Unpack codec s = Unpack codec s'"
proof -
  have "length (take 3 (Fields s')) = 3" using assms by (metis length_take min.absorb2)
  then have l: "3 \<le> length (Fields s')" by simp
  have "Fields s ! i = Fields s' ! i" if "i < 3" for i
    using that assms(2) by (metis nth_take)
  then have e: "Fields s ! 0 = Fields s' ! 0" "Fields s ! 1 = Fields s' ! 1" "Fields s ! 2 = Fields s' ! 2"
    by simp_all
  have n: "\<not> length (Fields s) < 3" "\<not> length (Fields s') < 3"
    using assms(1) l by simp_all
  show ?thesis
    unfolding Unpack_def Let_def e by (simp only: n if_False)
qed

lemma Unix_in_range:
  "- (2 ^ 63) \<le> t div 1000000000 \<Longrightarrow> t div 1000000000 < 2 ^ 63 \<Longrightarrow> Unix t = t div 1000000000"
  by (simp add: Unix_def int64_def Second_def)

lemma Unpack_line:
  assumes "k < 2 ^ 32" and "- (2 ^ 63) \<le> secs" and "secs < 2 ^ 63" and "data \<noteq> []"
  shows "Unpack codec (FormatUint k @ '' '' @ FormatInt secs @ '' '' @ EncodeToString data) =
     (case msg_Unpack codec data of
        Inl err \<Rightarrow> Inl err
      | Inr m \<Rightarrow> Inr \<lparr>Key = word_of_nat k, CreatedAt = secs * 1000000000, msg = m\<rparr>)"
proof -
  have f: "Fields (FormatUint k @ '' '' @ FormatInt secs @ '' '' @ EncodeToString data)
      = [FormatUint k, FormatInt secs, EncodeToString data]"
    by (rule Fields_three)
       (simp_all add: FormatUint_plain FormatUint_not_Nil FormatInt_plain FormatInt_not_Nil
          EncodeToString_plain EncodeToString_not_Nil assms(4))
  show ?thesis
    unfolding Unpack_def f Let_def
    using assms
    by (simp add: ParseUint_FormatUint ParseInt_FormatInt DecodeString_EncodeToString
        time_Unix_def Second_def cong: sum.case_cong)
qed

lemma Unix_bare: "Unix 1500000000 = 1"
  by (simp add: Unix_def int64_def Second_def)

lemma FormatUint_7: "FormatUint 7 = ''7''"
  by code_simp

lemma FormatInt_1: "FormatInt 1 = ''1''"
  by code_simp

lemma Encode_header:
  "EncodeToString ([0, 0, 128, 0] @ replicate 8 0) = ''000080000000000000000000''"
  by code_simp

lemma Fields_two: "Fields ''7 1'' = [''7'', ''1'']"
  by code_simp

lemma header_codec_pack:
  "msg_Pack header_codec (header_only 0) = Inr ([0, 0, 128, 0] @ replicate 8 0)"
  by (simp add: header_codec_def header_only_def)

lemma header_codec_unpack:
  "msg_Unpack header_codec ([0, 0, 128, 0] @ replicate 8 0) = Inr (header_only 0)"
  by (simp add: header_codec_def)

lemma Pack_bare: "Pack header_codec bare_value = Inr ''7 1 000080000000000000000000''"
  using Encode_header
  by (simp add: Pack_def header_codec_pack bare_value_def Unix_bare FormatUint_7 FormatInt_1)


text \<open>
  C6. The wire codec of the message is a parameter. For a value whose message the codec
  packs into one byte or more and unpacks from these bytes again, and whose creation
  instant has its Unix seconds within \<^verbatim>\<open>int64\<close>, \<^verbatim>\<open>Pack\<close> returns a line and
  \<^verbatim>\<open>Unpack\<close> of the line returns the value with the creation instant rounded down to
  whole seconds; the same holds for the line followed by a space and anything else.
  \<^verbatim>\<open>Unpack\<close> rejects every string with fewer than three fields, and its result depends
  on the first three fields only.
\<close>

theorem Unpack_Pack_roundtrip:
  "(msg_Pack codec (msg v) = Inr data \<and> data \<noteq> [] \<and> msg_Unpack codec data = Inr (msg v)
      \<and> - (2 ^ 63) \<le> CreatedAt v div 1000000000 \<and> CreatedAt v div 1000000000 < 2 ^ 63
    \<longrightarrow> (\<exists>line. Pack codec v = Inr line
          \<and> Unpack codec line = Inr (v\<lparr>CreatedAt := CreatedAt v div 1000000000 * 1000000000\<rparr>)
          \<and> (\<forall>extra. Unpack codec (line @ '' '' @ extra) = Unpack codec line)))
   \<and> (\<forall>s. length (Fields s) < 3 \<longrightarrow> Unpack codec s = Inl ErrFields)
   \<and> (\<forall>s s'. 3 \<le> length (Fields s) \<and> take 3 (Fields s) = take 3 (Fields s')
        \<longrightarrow> Unpack codec s = Unpack codec s')"
proof (intro conjI impI allI)
  assume a: "msg_Pack codec (msg v) = Inr data \<and> data \<noteq> [] \<and> msg_Unpack codec data = Inr (msg v)
      \<and> - (2 ^ 63) \<le> CreatedAt v div 1000000000 \<and> CreatedAt v div 1000000000 < 2 ^ 63"
  let ?k = "FormatUint (unat (Key v))"
  let ?t = "FormatInt (CreatedAt v div 1000000000)"
  let ?h = "EncodeToString data"
  let ?line = "?k @ '' '' @ ?t @ '' '' @ ?h"
  have u: "Unix (CreatedAt v) = CreatedAt v div 1000000000"
    using a by (simp add: Unix_in_range)
  have p: "Pack codec v = Inr ?line"
    using a by (simp add: Pack_def u)
  have kb: "unat (Key v) < 2 ^ 32"
    using unsigned_less [of "Key v", where ?'a = nat] by simp
  have r: "Unpack codec ?line = Inr (v\<lparr>CreatedAt := CreatedAt v div 1000000000 * 1000000000\<rparr>)"
    using Unpack_line [OF kb, of "CreatedAt v div 1000000000" data codec] a by simp
  have pl: "\<forall>c \<in> set ?k. plain c" "?k \<noteq> []" "\<forall>c \<in> set ?t. plain c" "?t \<noteq> []"
    "\<forall>c \<in> set ?h. plain c" "?h \<noteq> []"
    using a by (simp_all add: FormatUint_plain FormatUint_not_Nil FormatInt_plain FormatInt_not_Nil
          EncodeToString_plain EncodeToString_not_Nil)
  have e: "Unpack codec (?line @ '' '' @ extra) = Unpack codec ?line" for extra
    by (rule Unpack_first_three)
       (simp_all only: Fields_three_more [OF pl] Fields_three [OF pl], simp_all)
  show "\<exists>line. Pack codec v = Inr line
          \<and> Unpack codec line = Inr (v\<lparr>CreatedAt := CreatedAt v div 1000000000 * 1000000000\<rparr>)
          \<and> (\<forall>extra. Unpack codec (line @ '' '' @ extra) = Unpack codec line)"
    using p r e by blast
next
  fix s assume "length (Fields s) < 3"
  then show "Unpack codec s = Inl ErrFields" by (simp add: Unpack_def)
next
  fix s s' assume "3 \<le> length (Fields s) \<and> take 3 (Fields s) = take 3 (Fields s')"
  then show "Unpack codec s = Unpack codec s'" using Unpack_first_three by blast
qed

theorem Unpack_Pack_roundtrip_witness:
  "msg_Pack header_codec (msg bare_value) = Inr ([0, 0, 128, 0] @ replicate 8 0)
   \<and> msg_Unpack header_codec ([0, 0, 128, 0] @ replicate 8 0) = Inr (msg bare_value)
   \<and> Pack header_codec bare_value = Inr ''7 1 000080000000000000000000''
   \<and> Unpack header_codec ''7 1 000080000000000000000000''
       = Inr (bare_value\<lparr>CreatedAt := 1000000000\<rparr>)
   \<and> Unpack header_codec ''7 1 000080000000000000000000 later''
       = Inr (bare_value\<lparr>CreatedAt := 1000000000\<rparr>)
   \<and> length (Fields ''7 1'') < 3
   \<and> Unpack header_codec ''7 1'' = Inl ErrFields"
proof -
  let ?data = "[0, 0, 128, 0] @ replicate 8 0 :: 8 word list"
  note T = Unpack_Pack_roundtrip [of header_codec bare_value ?data]
  have h: "msg_Pack header_codec (msg bare_value) = Inr ?data \<and> ?data \<noteq> []
      \<and> msg_Unpack header_codec ?data = Inr (msg bare_value)
      \<and> - (2 ^ 63) \<le> CreatedAt bare_value div 1000000000
      \<and> CreatedAt bare_value div 1000000000 < 2 ^ 63"
    using header_codec_pack header_codec_unpack by (simp add: bare_value_def)
  from T h obtain line where l: "Pack header_codec bare_value = Inr line"
    "Unpack header_codec line
       = Inr (bare_value\<lparr>CreatedAt := CreatedAt bare_value div 1000000000 * 1000000000\<rparr>)"
    "\<forall>extra. Unpack header_codec (line @ '' '' @ extra) = Unpack header_codec line"
    by blast
  have line: "line = ''7 1 000080000000000000000000''"
    using l(1) Pack_bare by simp
  have c: "CreatedAt bare_value div 1000000000 * 1000000000 = 1000000000"
    by (simp add: bare_value_def)
  have r1: "Unpack header_codec ''7 1 000080000000000000000000''
       = Inr (bare_value\<lparr>CreatedAt := 1000000000\<rparr>)"
    using l(2) unfolding line c .
  have r2: "Unpack header_codec ''7 1 000080000000000000000000 later''
       = Inr (bare_value\<lparr>CreatedAt := 1000000000\<rparr>)"
    using l(3) [rule_format, of "''later''"] r1 unfolding line by simp
  have f: "length (Fields ''7 1'') < 3" by (simp add: Fields_two)
  have r3: "Unpack header_codec ''7 1'' = Inl ErrFields"
    using T f by blast
  show ?thesis
    using h Pack_bare r1 r2 f r3 by simp
qed

text \<open>
  C10. When the codec unpacks some bytes into a message without question, \<^verbatim>\<open>Unpack\<close>
  accepts the line made of a key, a time and these bytes in hexadecimal, and on the value
  it returns the accessors \<^verbatim>\<open>Question\<close> and \<^verbatim>\<open>Qtype\<close> panic with an index out of
  range. The accessors return exactly on the values whose message has a question.
\<close>

theorem Unpack_accepts_empty_question:
  "(msg_Unpack codec data = Inr m \<and> Question m = [] \<and> data \<noteq> []
      \<and> k < 2 ^ 32 \<and> - (2 ^ 63) \<le> secs \<and> secs < 2 ^ 63
    \<longrightarrow> (\<exists>v. Unpack codec (FormatUint k @ '' '' @ FormatInt secs @ '' '' @ EncodeToString data)
               = Inr v
            \<and> msg v = m
            \<and> Value_Question v = Inl IndexOutOfRange
            \<and> Value_Qtype v = Inl IndexOutOfRange))
   \<and> ((\<exists>n. Value_Question v' = Inr n) \<longleftrightarrow> Question (msg v') \<noteq> [])
   \<and> ((\<exists>t. Value_Qtype v' = Inr t) \<longleftrightarrow> Question (msg v') \<noteq> [])"
proof (intro conjI impI)
  assume a: "msg_Unpack codec data = Inr m \<and> Question m = [] \<and> data \<noteq> []
      \<and> k < 2 ^ 32 \<and> - (2 ^ 63) \<le> secs \<and> secs < 2 ^ 63"
  then have "Unpack codec (FormatUint k @ '' '' @ FormatInt secs @ '' '' @ EncodeToString data)
      = Inr \<lparr>Key = word_of_nat k, CreatedAt = secs * 1000000000, msg = m\<rparr>"
    using Unpack_line [of k secs data codec] by simp
  then show "\<exists>v. Unpack codec (FormatUint k @ '' '' @ FormatInt secs @ '' '' @ EncodeToString data)
               = Inr v
            \<and> msg v = m
            \<and> Value_Question v = Inl IndexOutOfRange
            \<and> Value_Qtype v = Inl IndexOutOfRange"
    using a by (simp add: Value_Question_def Value_Qtype_def)
next
  show "(\<exists>n. Value_Question v' = Inr n) \<longleftrightarrow> Question (msg v') \<noteq> []"
    by (simp add: Value_Question_def split: list.splits)
next
  show "(\<exists>t. Value_Qtype v' = Inr t) \<longleftrightarrow> Question (msg v') \<noteq> []"
    by (simp add: Value_Qtype_def split: list.splits)
qed

theorem Unpack_accepts_empty_question_witness:
  "msg_Unpack header_codec ([0, 0, 128, 0] @ replicate 8 0) = Inr (header_only 0)
   \<and> Question (header_only 0) = []
   \<and> map_sum id msg (Unpack header_codec ''7 1 000080000000000000000000'') = Inr (header_only 0)
   \<and> Value_Question (projr (Unpack header_codec ''7 1 000080000000000000000000''))
       = Inl IndexOutOfRange
   \<and> Value_Qtype (projr (Unpack header_codec ''7 1 000080000000000000000000''))
       = Inl IndexOutOfRange"
proof -
  let ?data = "[0, 0, 128, 0] @ replicate 8 0 :: 8 word list"
  note T = Unpack_accepts_empty_question [of header_codec ?data "header_only 0" 7 1]
  have h: "msg_Unpack header_codec ?data = Inr (header_only 0) \<and> Question (header_only 0) = []
      \<and> ?data \<noteq> [] \<and> (7 :: nat) < 2 ^ 32 \<and> - (2 ^ 63) \<le> (1 :: int) \<and> (1 :: int) < 2 ^ 63"
    using header_codec_unpack by (simp add: header_only_def)
  have s: "FormatUint 7 @ '' '' @ FormatInt 1 @ '' '' @ EncodeToString ?data
      = ''7 1 000080000000000000000000''"
    using Encode_header by (simp add: FormatUint_7 FormatInt_1)
  from T h obtain v where v:
    "Unpack header_codec (FormatUint 7 @ '' '' @ FormatInt 1 @ '' '' @ EncodeToString ?data) = Inr v"
    "msg v = header_only 0"
    "Value_Question v = Inl IndexOutOfRange" "Value_Qtype v = Inl IndexOutOfRange"
    by blast
  have u: "Unpack header_codec ''7 1 000080000000000000000000'' = Inr v"
    using v(1) unfolding s .
  show ?thesis
    unfolding u using h v(2,3,4) by simp
qed

end
